theory Spec2Isabelle
  imports Main "HOL-Library.Sublist"
begin

section \<open>Python strings\<close>

text \<open>
  URLs are Python \<open>str\<close> values; they are modelled as \<open>string\<close>, one \<open>char\<close> per code
  point, which covers the code points below 256. The string methods the resolver and the
  URL parser use are written out below.
\<close>

definition is_ascii :: "char \<Rightarrow> bool" where
  "is_ascii c = ((of_char c :: nat) < 128)"

definition is_ascii_alpha :: "char \<Rightarrow> bool" where
  "is_ascii_alpha c =
     (let n = (of_char c :: nat) in (65 \<le> n \<and> n \<le> 90) \<or> (97 \<le> n \<and> n \<le> 122))"

definition is_digit :: "char \<Rightarrow> bool" where
  "is_digit c = (let n = (of_char c :: nat) in 48 \<le> n \<and> n \<le> 57)"

text \<open>\<open>c.lower()\<close> for a character of the ASCII range; other characters are left alone.\<close>

definition lower_char :: "char \<Rightarrow> char" where
  "lower_char c =
     (let n = (of_char c :: nat) in if 65 \<le> n \<and> n \<le> 90 then char_of (n + 32) else c)"

definition lower :: "string \<Rightarrow> string" where
  "lower s = map lower_char s"

text \<open>\<open>s.lstrip(chars)\<close>, \<open>s.rstrip(chars)\<close>, \<open>s.strip(chars)\<close>.\<close>

definition lstrip :: "char set \<Rightarrow> string \<Rightarrow> string" where
  "lstrip cs s = dropWhile (\<lambda>c. c \<in> cs) s"

definition rstrip :: "char set \<Rightarrow> string \<Rightarrow> string" where
  "rstrip cs s = rev (dropWhile (\<lambda>c. c \<in> cs) (rev s))"

definition strip :: "char set \<Rightarrow> string \<Rightarrow> string" where
  "strip cs s = rstrip cs (lstrip cs s)"

text \<open>\<open>s.split(sep)\<close> for a one-character separator: \<open>''''.split('/') == ['''']\<close>.\<close>

fun split :: "char \<Rightarrow> string \<Rightarrow> string list" where
  "split sep [] = [[]]"
| "split sep (x # xs) =
     (if x = sep then [] # split sep xs
      else (case split sep xs of [] \<Rightarrow> [[x]] | w # ws \<Rightarrow> (x # w) # ws))"

text \<open>
  \<open>s.split(sep, 1)\<close> when \<open>sep\<close> occurs in \<open>s\<close>: the text before the first occurrence and the
  text after it.
\<close>

definition split_once :: "char \<Rightarrow> string \<Rightarrow> string \<times> string" where
  "split_once sep s = (takeWhile (\<lambda>c. c \<noteq> sep) s, tl (dropWhile (\<lambda>c. c \<noteq> sep) s))"

section \<open>The URL parser of the standard library\<close>

text \<open>
  \<open>parse_azure_url\<close> calls \<open>urllib.parse.urlparse\<close>. The functions below follow
  \<open>urlsplit\<close>, \<open>_splitnetloc\<close>, \<open>_splitparams\<close> and \<open>urlparse\<close> of CPython 3.12. Every
  failure of the parser is a \<open>ValueError\<close>.

  Two validations of the network location are taken as parameters: the syntax check of a
  bracketed host (\<open>_check_bracketed_netloc\<close>, which parses IP literals) and the NFKC check of a
  non-ASCII host (\<open>_checknetloc\<close>, which needs the Unicode database). The parser consults
  them only for a network location that has both brackets, or a non-ASCII character; the
  text of the error they raise is not modelled.
\<close>

datatype exn =
    ValueError string
  | TypeError string
  | IndexError
  | Exception string
  | BaseException string

record netloc_checks =
  check_bracketed_netloc :: "string \<Rightarrow> bool"
  checknetloc_nfkc :: "string \<Rightarrow> bool"

record parse_result =
  scheme :: string
  netloc :: string
  path :: string
  params :: string
  query :: string
  fragment :: string

definition WHATWG_C0_CONTROL_OR_SPACE :: "char set" where
  "WHATWG_C0_CONTROL_OR_SPACE = {c. (of_char c :: nat) \<le> 32}"

definition UNSAFE_URL_BYTES_TO_REMOVE :: "char set" where
  "UNSAFE_URL_BYTES_TO_REMOVE = {CHR 0x09, CHR 0x0D, CHR 0x0A}"

definition scheme_chars :: "char \<Rightarrow> bool" where
  "scheme_chars c = (is_ascii_alpha c \<or> is_digit c \<or> c \<in> {CHR ''+'', CHR ''-'', CHR ''.''})"

definition uses_params :: "string list" where
  "uses_params = ['''', ''ftp'', ''hdl'', ''prospero'', ''http'', ''imap'', ''https'',
     ''shttp'', ''rtsp'', ''rtsps'', ''rtspu'', ''sip'', ''sips'', ''mms'', ''sftp'',
     ''tel'']"

definition netloc_delim :: "char \<Rightarrow> bool" where
  "netloc_delim c = (c \<in> {CHR ''/'', CHR ''?'', CHR ''#''})"

text \<open>\<open>_splitnetloc(url, 2)\<close>: the text from position 2 to the first of \<open>/ ? #\<close>, and the rest.\<close>

definition splitnetloc :: "string \<Rightarrow> string \<times> string" where
  "splitnetloc url =
     (takeWhile (\<lambda>c. \<not> netloc_delim c) (drop 2 url),
      dropWhile (\<lambda>c. \<not> netloc_delim c) (drop 2 url))"

text \<open>
  The scheme: \<open>i = url.find(':')\<close>; when \<open>i > 0\<close>, the first character is an ASCII letter and
  every character before the colon is a scheme character, the scheme is \<open>url[:i].lower()\<close>
  and the URL continues after the colon.
\<close>

definition split_scheme :: "string \<Rightarrow> string \<times> string" where
  "split_scheme url =
     (let pre = takeWhile (\<lambda>c. c \<noteq> CHR '':'') url
      in if CHR '':'' \<in> set url \<and> pre \<noteq> [] \<and> is_ascii (hd url) \<and> is_ascii_alpha (hd url)
            \<and> list_all scheme_chars pre
         then (lower pre, drop (length pre + 1) url)
         else ('''', url))"

definition urlsplit :: "netloc_checks \<Rightarrow> string \<Rightarrow> exn + (string \<times> string \<times> string \<times> string \<times> string)" where
  "urlsplit chk url0 =
     (let url1 = lstrip WHATWG_C0_CONTROL_OR_SPACE url0;
          url2 = filter (\<lambda>c. c \<notin> UNSAFE_URL_BYTES_TO_REMOVE) url1;
          (sch, url3) = split_scheme url2;
          (nl, url4) = (if take 2 url3 = ''//'' then splitnetloc url3 else ('''', url3))
      in if take 2 url3 = ''//''
            \<and> ((CHR ''['' \<in> set nl \<and> CHR '']'' \<notin> set nl) \<or> (CHR '']'' \<in> set nl \<and> CHR ''['' \<notin> set nl))
         then Inl (ValueError ''Invalid IPv6 URL'')
         else if take 2 url3 = ''//'' \<and> CHR ''['' \<in> set nl \<and> CHR '']'' \<in> set nl
                 \<and> \<not> check_bracketed_netloc chk nl
         then Inl (ValueError ''Invalid IPv6 URL'')
         else
           let (url5, frag) = (if CHR ''#'' \<in> set url4 then split_once CHR ''#'' url4 else (url4, ''''));
               (url6, qry) = (if CHR ''?'' \<in> set url5 then split_once CHR ''?'' url5 else (url5, ''''))
           in if nl \<noteq> [] \<and> \<not> list_all is_ascii nl \<and> \<not> checknetloc_nfkc chk nl
              then Inl (ValueError ''netloc contains invalid characters under NFKC normalization'')
              else Inr (sch, nl, url6, qry, frag))"

text \<open>
  \<open>_splitparams(url)\<close>, called when the URL has a semicolon: the parameters start at the first
  semicolon of the last path segment.
\<close>

definition rfind_slash :: "string \<Rightarrow> nat" where
  "rfind_slash url = length url - 1 - length (takeWhile (\<lambda>c. c \<noteq> CHR ''/'') (rev url))"

definition splitparams :: "string \<Rightarrow> string \<times> string" where
  "splitparams url =
     (if CHR ''/'' \<in> set url
      then (let k = rfind_slash url; seg = drop k url
            in if CHR '';'' \<in> set seg
               then (take k url @ takeWhile (\<lambda>c. c \<noteq> CHR '';'') seg,
                     tl (dropWhile (\<lambda>c. c \<noteq> CHR '';'') seg))
               else (url, ''''))
      else split_once CHR '';'' url)"

definition urlparse :: "netloc_checks \<Rightarrow> string \<Rightarrow> exn + parse_result" where
  "urlparse chk url =
     (case urlsplit chk url of
        Inl e \<Rightarrow> Inl e
      | Inr (sch, nl, u, qry, frag) \<Rightarrow>
          (let (u', prm) = (if sch \<in> set uses_params \<and> CHR '';'' \<in> set u
                            then splitparams u else (u, ''''))
           in Inr \<lparr>scheme = sch, netloc = nl, path = u', params = prm,
                    query = qry, fragment = frag\<rparr>))"

section \<open>The endpoint resolver\<close>

text \<open>
  \<open>parse_azure_url\<close> of \<open>debug_tools/azure_config_parser.py\<close>. The argument is the value of
  \<open>os.getenv\<close>: a string or \<open>None\<close>. The result is the pair \<open>(base_url, deployment_name)\<close>; an
  exception of the URL parser propagates.
\<close>

definition path_parts_of :: "string \<Rightarrow> string list" where
  "path_parts_of p = split CHR ''/'' (strip {CHR ''/''} p)"

definition deployment_of :: "string list \<Rightarrow> string option" where
  "deployment_of path_parts =
     (if ''deployments'' \<in> set path_parts
      then (let deployment_idx = length (takeWhile (\<lambda>s. s \<noteq> ''deployments'') path_parts) + 1
            in if deployment_idx < length path_parts
               then Some (path_parts ! deployment_idx) else None)
      else None)"

definition parse_azure_url ::
  "netloc_checks \<Rightarrow> string option \<Rightarrow> exn + (string option \<times> string option)" where
  "parse_azure_url chk full_url =
     (case full_url of
        None \<Rightarrow> Inr (None, None)
      | Some u \<Rightarrow>
          if u = [] then Inr (None, None)
          else (case urlparse chk u of
                  Inl e \<Rightarrow> Inl e
                | Inr parsed \<Rightarrow>
                    (let base_url = scheme parsed @ ''://'' @ netloc parsed @ ''/openai/'';
                         path_parts = path_parts_of (path parsed);
                         deployment_name = deployment_of path_parts
                     in Inr (Some base_url, deployment_name))))"

section \<open>The Azure OpenAI wrapper\<close>

text \<open>
  \<open>azure_integration/azure_lightrag_fix.py\<close>. The process environment is a map from
  variable names to values; \<open>os.getenv(name)\<close> is the lookup and \<open>os.getenv(name, default)\<close>
  replaces an unset variable only. \<open>load_dotenv()\<close> fills the variables that are not set
  from the \<open>.env\<close> file (it does not override), so the contents of that file are an input.
\<close>

type_synonym environ = "string \<rightharpoonup> string"

definition getenv :: "environ \<Rightarrow> string \<Rightarrow> string option" where
  "getenv env name = env name"

definition getenv_default :: "environ \<Rightarrow> string \<Rightarrow> string \<Rightarrow> string" where
  "getenv_default env name dflt = (case env name of None \<Rightarrow> dflt | Some v \<Rightarrow> v)"

definition load_dotenv :: "environ \<Rightarrow> environ \<Rightarrow> environ" where
  "load_dotenv dotenv_file env = dotenv_file ++ env"

text \<open>Truth value of an optional string: \<open>None\<close> and the empty string are false.\<close>

definition truthy :: "string option \<Rightarrow> bool" where
  "truthy v = (case v of None \<Rightarrow> False | Some s \<Rightarrow> s \<noteq> [])"

text \<open>
  Keyword arguments are a Python \<open>dict\<close>: key-value pairs in insertion order. A chat message
  is its role and its content.
\<close>

type_synonym 'v kwargs = "(string \<times> 'v) list"

type_synonym message = "string \<times> string"

datatype texts = Single string | Many "string list"

datatype 'f embedding = EmbeddingList "'f list" | EmbeddingBase64 string

text \<open>
  What the wrapper does to the outside, in order: loading the \<open>.env\<close> file, constructing the
  client, calling a method of the SDK (the only place where the network is used), closing the
  client.
\<close>

datatype 'v event =
    LoadDotenv
  | ClientCreated string string string
  | ChatCompletionsCreate string "message list" "'v kwargs"
  | EmbeddingsCreate string "string list" "'v kwargs"
  | ClientClosed

text \<open>
  The vendor SDK and numpy are outside the repository: what the SDK methods answer (a response
  or an exception, cancellation included), whether closing the client raises, and the array
  constructors are parameters. A chat response is the list of the contents of its choices; an
  embedding response is the list of the \<open>embedding\<close> fields of its data items.
\<close>

record ('v, 'f, 'row, 'arr) externals =
  chat_completions_create :: "string \<Rightarrow> message list \<Rightarrow> 'v kwargs \<Rightarrow> exn + string option list"
  embeddings_create :: "string \<Rightarrow> string list \<Rightarrow> 'v kwargs \<Rightarrow> exn + 'f embedding list"
  client_close :: "exn option"
  np_array_float32 :: "'f list \<Rightarrow> exn + 'row"
  np_frombuffer_b64decode :: "string \<Rightarrow> exn + 'row"
  np_array_rows :: "'row list \<Rightarrow> exn + 'arr"

definition lightrag_params :: "string set" where
  "lightrag_params = {''azure_endpoint'', ''api_version'', ''azure_deployment'', ''hashing_kv'',
     ''keyword_extraction'', ''enable_cot''}"

text \<open>\<open>{k: v for k, v in kwargs.items() if k not in lightrag_params}\<close>\<close>

definition filtered_kwargs :: "'v kwargs \<Rightarrow> 'v kwargs" where
  "filtered_kwargs kwargs = filter (\<lambda>(k, v). k \<notin> lightrag_params) kwargs"

text \<open>
  A call \<open>f(a=x, b=y, **kw)\<close> raises \<open>TypeError\<close> before \<open>f\<close> runs when \<open>kw\<close> has one of the
  keywords written out in the call.
\<close>

definition keyword_clash :: "string list \<Rightarrow> 'v kwargs \<Rightarrow> bool" where
  "keyword_clash named kw = list_ex (\<lambda>k. k \<in> set (map fst kw)) named"

definition azure_openai_complete_if_cache ::
  "('v, 'f, 'row, 'arr) externals \<Rightarrow> environ \<Rightarrow> string \<Rightarrow> string option \<Rightarrow> message list
     \<Rightarrow> 'v kwargs \<Rightarrow> 'v event list \<times> (exn + string option)" where
  "azure_openai_complete_if_cache ext env prompt system_prompt history_messages kwargs =
     (let api_key = getenv env ''AZURE_OPENAI_API_KEY'';
          endpoint = getenv env ''AZURE_OPENAI_ENDPOINT'';
          deployment = getenv env ''AZURE_OPENAI_LLM_DEPLOYMENT'';
          api_version = getenv_default env ''AZURE_LLM_API_VERSION'' ''2024-08-01-preview''
      in case (api_key, endpoint, deployment) of
           (Some k, Some e, Some d) \<Rightarrow>
             if \<not> (truthy api_key \<and> truthy endpoint \<and> truthy deployment)
             then ([], Inl (ValueError ''Missing required Azure OpenAI configuration''))
             else
               (let client = ClientCreated k e api_version;
                    messages =
                      (if truthy system_prompt
                       then (case system_prompt of Some s \<Rightarrow> [(''system'', s)] | None \<Rightarrow> [])
                       else [])
                      @ history_messages
                      @ (if prompt \<noteq> [] then [(''user'', prompt)] else []);
                    fk = filtered_kwargs kwargs
                in if keyword_clash [''model'', ''messages''] fk
                   then ([client], Inl (TypeError ''got multiple values for keyword argument''))
                   else
                     (case chat_completions_create ext d messages fk of
                        Inl err \<Rightarrow> ([client, ChatCompletionsCreate d messages fk], Inl err)
                      | Inr choices \<Rightarrow>
                          (case choices of
                             [] \<Rightarrow> ([client, ChatCompletionsCreate d messages fk], Inl IndexError)
                           | content # _ \<Rightarrow>
                               ([client, ChatCompletionsCreate d messages fk], Inr content))))
         | _ \<Rightarrow> ([], Inl (ValueError ''Missing required Azure OpenAI configuration'')))"

text \<open>
  The list comprehension over \<open>response.data\<close>: each item is converted in turn, and the first
  conversion that raises ends the comprehension.
\<close>

fun decode_rows :: "('v, 'f, 'row, 'arr) externals \<Rightarrow> 'f embedding list \<Rightarrow> exn + 'row list" where
  "decode_rows ext [] = Inr []"
| "decode_rows ext (dp # rest) =
     (case (case dp of EmbeddingList xs \<Rightarrow> np_array_float32 ext xs
                     | EmbeddingBase64 s \<Rightarrow> np_frombuffer_b64decode ext s) of
        Inl err \<Rightarrow> Inl err
      | Inr row \<Rightarrow> (case decode_rows ext rest of Inl err \<Rightarrow> Inl err | Inr rows \<Rightarrow> Inr (row # rows)))"

text \<open>The body of the \<open>try\<close> block of \<open>azure_openai_embed\<close>.\<close>

definition embed_body ::
  "('v, 'f, 'row, 'arr) externals \<Rightarrow> string \<Rightarrow> texts \<Rightarrow> 'v kwargs \<Rightarrow> 'v event list \<times> (exn + 'arr)" where
  "embed_body ext deployment txts fk =
     (let text_input = (case txts of Single s \<Rightarrow> [s] | Many ss \<Rightarrow> ss)
      in if keyword_clash [''model'', ''input''] fk
         then ([], Inl (TypeError ''got multiple values for keyword argument''))
         else
           (case embeddings_create ext deployment text_input fk of
              Inl err \<Rightarrow> ([EmbeddingsCreate deployment text_input fk], Inl err)
            | Inr data \<Rightarrow>
                ([EmbeddingsCreate deployment text_input fk],
                 (case decode_rows ext data of
                    Inl err \<Rightarrow> Inl err
                  | Inr rows \<Rightarrow> np_array_rows ext rows))))"

text \<open>
  \<open>try: ... finally: await client.close()\<close>: the client is closed after the body whatever the
  body did; an exception of \<open>close\<close> replaces the outcome of the body.
\<close>

definition azure_openai_embed ::
  "('v, 'f, 'row, 'arr) externals \<Rightarrow> environ \<Rightarrow> environ \<Rightarrow> texts \<Rightarrow> 'v kwargs
     \<Rightarrow> 'v event list \<times> (exn + 'arr)" where
  "azure_openai_embed ext dotenv_file env0 txts kwargs =
     (let env = load_dotenv dotenv_file env0;
          api_key = getenv env ''AZURE_OPENAI_API_KEY'';
          endpoint = getenv env ''AZURE_OPENAI_ENDPOINT'';
          deployment = getenv env ''AZURE_OPENAI_EMBEDDING_DEPLOYMENT'';
          api_version = getenv_default env ''AZURE_EMBEDDING_API_VERSION'' ''2023-05-15''
      in case (api_key, endpoint, deployment) of
           (Some k, Some e, Some d) \<Rightarrow>
             if \<not> (truthy api_key \<and> truthy endpoint \<and> truthy deployment)
             then ([LoadDotenv], Inl (ValueError ''Missing required Azure OpenAI embedding configuration''))
             else
               (let fk = filtered_kwargs kwargs;
                    client = ClientCreated k e api_version;
                    (evs, outcome) = embed_body ext d txts fk
                in ([LoadDotenv, client] @ evs @ [ClientClosed],
                    (case client_close ext of Some err \<Rightarrow> Inl err | None \<Rightarrow> outcome)))
         | _ \<Rightarrow> ([LoadDotenv], Inl (ValueError ''Missing required Azure OpenAI embedding configuration'')))"

text \<open>The keyword arguments an event hands to the SDK, if it is a call of an SDK method.\<close>

fun sdk_kwargs :: "'v event \<Rightarrow> 'v kwargs option" where
  "sdk_kwargs (ChatCompletionsCreate m msgs kw) = Some kw"
| "sdk_kwargs (EmbeddingsCreate m inp kw) = Some kw"
| "sdk_kwargs _ = None"

section \<open>The example scripts\<close>

text \<open>
  The scripts log, print and call the RAG library. The library is outside the repository:
  \<open>aquery\<close> is a parameter that takes the state of the library and the query and gives the
  answer or the exception raised, with the new state. \<open>except Exception\<close> catches every
  exception except those that derive from \<open>BaseException\<close> only (cancellation, keyboard
  interrupt, \<open>SystemExit\<close>).
\<close>

definition is_Exception :: "exn \<Rightarrow> bool" where
  "is_Exception e = (case e of BaseException _ \<Rightarrow> False | _ \<Rightarrow> True)"

datatype notice =
    QueryText string
  | Answer string
  | QuerySucceeded
  | QueryFailed exn
  | FileNotFound string
  | Usage

datatype script_event =
    LogInfo notice
  | LogError notice
  | Print notice
  | PrintTraceback
  | AQuery string
  | MakeDirs string

text \<open>
  \<open>get_azure_openai_config\<close> of \<open>debug_tools/azure_openai_example.py\<close>. The dictionary is
  built first, so an exception of \<open>int(...)\<close> (a parameter: Python's conversion of the text
  of \<open>EMBEDDING_DIM\<close>) comes before the validation. The validation loop goes through the items
  in the order of the dictionary; each item is its key and the truth value of its value. The
  error message ends with the \<open>repr\<close> of the list of the missing keys.
\<close>

record azure_openai_config =
  llm_api_key :: "string option"
  llm_base_url :: "string option"
  llm_model :: string
  embed_api_key :: "string option"
  embed_base_url :: "string option"
  embed_model :: string
  embed_dim :: int

text \<open>\<open>sep.join(xs)\<close> and the \<open>repr\<close> of a list of strings without quotes in them.\<close>

fun join :: "string \<Rightarrow> string list \<Rightarrow> string" where
  "join sep [] = []"
| "join sep [x] = x"
| "join sep (x # y # ys) = x @ sep @ join sep (y # ys)"

definition repr_str_list :: "string list \<Rightarrow> string" where
  "repr_str_list ks = ''['' @ join '', '' (map (\<lambda>k. [CHR 0x27] @ k @ [CHR 0x27]) ks) @ '']''"

definition get_azure_openai_config ::
  "(string \<Rightarrow> exn + int) \<Rightarrow> environ \<Rightarrow> exn + azure_openai_config" where
  "get_azure_openai_config py_int env =
     (case py_int (getenv_default env ''EMBEDDING_DIM'' ''1536'') of
        Inl err \<Rightarrow> Inl err
      | Inr dim \<Rightarrow>
          (let config =
                 \<lparr>llm_api_key = getenv env ''LLM_BINDING_API_KEY'',
                  llm_base_url = getenv env ''LLM_BINDING_HOST'',
                  llm_model = getenv_default env ''LLM_MODEL'' ''gpt-4o-mini'',
                  embed_api_key = getenv env ''EMBEDDING_BINDING_API_KEY'',
                  embed_base_url = getenv env ''EMBEDDING_BINDING_HOST'',
                  embed_model = getenv_default env ''EMBEDDING_MODEL'' ''text-embedding-3-small'',
                  embed_dim = dim\<rparr>;
               items =
                 [(''llm_api_key'', truthy (llm_api_key config)),
                  (''llm_base_url'', truthy (llm_base_url config)),
                  (''llm_model'', llm_model config \<noteq> []),
                  (''embed_api_key'', truthy (embed_api_key config)),
                  (''embed_base_url'', truthy (embed_base_url config)),
                  (''embed_model'', embed_model config \<noteq> []),
                  (''embed_dim'', embed_dim config \<noteq> 0)];
               missing = map fst (filter (\<lambda>(key, val). \<not> val \<and> \<not> sublist ''dim'' key) items)
           in if missing \<noteq> []
              then Inl (ValueError (''Missing Azure OpenAI configuration: '' @ repr_str_list missing))
              else Inr config))"

text \<open>
  \<open>for query in queries\<close> of \<open>process_with_custom_azure_openai\<close>
  (\<open>azure_integration/fixed_azure_custom_example.py\<close>). The result is the events, the exception
  that left the loop if one did, and the state of the library.
\<close>

fun custom_query_loop ::
  "('rag \<Rightarrow> string \<Rightarrow> (exn + string) \<times> 'rag) \<Rightarrow> 'rag \<Rightarrow> string list
     \<Rightarrow> script_event list \<times> exn option \<times> 'rag" where
  "custom_query_loop aquery rag [] = ([], None, rag)"
| "custom_query_loop aquery rag (q # queries) =
     (case aquery rag q of
        (Inr result, rag') \<Rightarrow>
          (let (evs, raised, rag'') = custom_query_loop aquery rag' queries
           in ([LogInfo (QueryText q), AQuery q, Print (Answer result), LogInfo QuerySucceeded] @ evs,
               raised, rag''))
      | (Inl e, rag') \<Rightarrow>
          if is_Exception e
          then (let (evs, raised, rag'') = custom_query_loop aquery rag' queries
                in ([LogInfo (QueryText q), AQuery q, LogError (QueryFailed e)] @ evs, raised, rag''))
          else ([LogInfo (QueryText q), AQuery q], Some e, rag'))"

text \<open>
  \<open>for query in queries\<close> of \<open>process_with_fixed_azure_openai\<close>
  (\<open>debug_tools/fixed_azure_example.py\<close>).
\<close>

fun fixed_query_loop ::
  "('rag \<Rightarrow> string \<Rightarrow> (exn + string) \<times> 'rag) \<Rightarrow> 'rag \<Rightarrow> string list
     \<Rightarrow> script_event list \<times> exn option \<times> 'rag" where
  "fixed_query_loop aquery rag [] = ([], None, rag)"
| "fixed_query_loop aquery rag (q # queries) =
     (case aquery rag q of
        (Inr result, rag') \<Rightarrow>
          (let (evs, raised, rag'') = fixed_query_loop aquery rag' queries
           in ([LogInfo (QueryText q), AQuery q, LogInfo (Answer result)] @ evs, raised, rag''))
      | (Inl e, rag') \<Rightarrow>
          if is_Exception e
          then (let (evs, raised, rag'') = fixed_query_loop aquery rag' queries
                in ([LogInfo (QueryText q), AQuery q, LogError (QueryFailed e), PrintTraceback] @ evs,
                    raised, rag''))
          else ([LogInfo (QueryText q), AQuery q], Some e, rag'))"

text \<open>The outcomes of the queries of a batch when every one of them is run, in order.\<close>

fun query_outcomes ::
  "('rag \<Rightarrow> string \<Rightarrow> (exn + string) \<times> 'rag) \<Rightarrow> 'rag \<Rightarrow> string list \<Rightarrow> (exn + string) list" where
  "query_outcomes aquery rag [] = []"
| "query_outcomes aquery rag (q # queries) =
     (case aquery rag q of (r, rag') \<Rightarrow> r # query_outcomes aquery rag' queries)"

fun queries_run :: "script_event list \<Rightarrow> string list" where
  "queries_run [] = []"
| "queries_run (AQuery q # evs) = q # queries_run evs"
| "queries_run (_ # evs) = queries_run evs"

fun failures_logged :: "script_event list \<Rightarrow> exn list" where
  "failures_logged [] = []"
| "failures_logged (LogError (QueryFailed e) # evs) = e # failures_logged evs"
| "failures_logged (_ # evs) = failures_logged evs"

fun failures_of :: "(exn + string) list \<Rightarrow> exn list" where
  "failures_of [] = []"
| "failures_of (Inl e # rs) = e # failures_of rs"
| "failures_of (Inr _ # rs) = failures_of rs"

text \<open>
  How a script ends: \<open>main\<close> returns, \<open>sys.exit(n)\<close> is called, or an exception is not caught.
  The exit status of the process follows.
\<close>

datatype ending = Returned | SysExit int | Uncaught exn

definition exit_status :: "ending \<Rightarrow> int" where
  "exit_status e = (case e of Returned \<Rightarrow> 0 | SysExit n \<Rightarrow> n | Uncaught _ \<Rightarrow> 1)"

text \<open>
  \<open>main\<close> of \<open>azure_integration/fixed_azure_custom_example.py\<close>. \<open>exists\<close> is
  \<open>os.path.exists\<close>; \<open>process\<close> is what \<open>process_with_custom_azure_openai\<close> does for the file:
  its events and the exception that leaves it, if any.
\<close>

definition main_fixed_azure_custom_example ::
  "(string \<Rightarrow> bool) \<Rightarrow> (string \<Rightarrow> script_event list \<times> exn option) \<Rightarrow> string list
     \<Rightarrow> script_event list \<times> ending" where
  "main_fixed_azure_custom_example exists process argv =
     (if length argv \<noteq> 2 then ([Print Usage], SysExit 1)
      else (let file_path = argv ! 1
            in if \<not> exists file_path then ([Print (FileNotFound file_path)], SysExit 1)
               else (case process file_path of
                       (evs, None) \<Rightarrow> (evs, Returned)
                     | (evs, Some e) \<Rightarrow> (evs, Uncaught e))))"

text \<open>
  \<open>main\<close> of \<open>debug_tools/azure_openai_example.py\<close> and of \<open>debug_tools/fixed_azure_example.py\<close>:
  the two functions differ in the processing function they run only. \<open>args\<close> is the namespace
  that \<open>argparse\<close> returns for a command line with a file path; \<open>makedirs\<close> is the exception
  of \<open>os.makedirs\<close>, if it raises.
\<close>

record args =
  file_path :: string
  output_dir :: string

definition main_argparse_example ::
  "(string \<Rightarrow> bool) \<Rightarrow> (string \<Rightarrow> exn option)
     \<Rightarrow> (string \<Rightarrow> string \<Rightarrow> script_event list \<times> exn option) \<Rightarrow> args
     \<Rightarrow> script_event list \<times> ending" where
  "main_argparse_example exists makedirs process a =
     (if \<not> exists (file_path a) then ([LogError (FileNotFound (file_path a))], Returned)
      else (case makedirs (output_dir a) of
              Some e \<Rightarrow> ([MakeDirs (output_dir a)], Uncaught e)
            | None \<Rightarrow>
                (case process (file_path a) (output_dir a) of
                   (evs, None) \<Rightarrow> (MakeDirs (output_dir a) # evs, Returned)
                 | (evs, Some e) \<Rightarrow> (MakeDirs (output_dir a) # evs, Uncaught e))))"

definition main_azure_openai_example ::
  "(string \<Rightarrow> bool) \<Rightarrow> (string \<Rightarrow> exn option)
     \<Rightarrow> (string \<Rightarrow> string \<Rightarrow> script_event list \<times> exn option) \<Rightarrow> args
     \<Rightarrow> script_event list \<times> ending" where
  "main_azure_openai_example exists makedirs process_with_azure_openai a =
     main_argparse_example exists makedirs process_with_azure_openai a"

definition main_fixed_azure_example ::
  "(string \<Rightarrow> bool) \<Rightarrow> (string \<Rightarrow> exn option)
     \<Rightarrow> (string \<Rightarrow> string \<Rightarrow> script_event list \<times> exn option) \<Rightarrow> args
     \<Rightarrow> script_event list \<times> ending" where
  "main_fixed_azure_example exists makedirs process_with_fixed_azure_openai a =
     main_argparse_example exists makedirs process_with_fixed_azure_openai a"

section \<open>Well-formed parts of a deployment URL\<close>

text \<open>
  The shape of the parts of a URL \<open>scheme://host/openai/deployments/name/...\<close>: a scheme is a
  letter followed by letters, digits, \<open>+\<close>, \<open>-\<close> or \<open>.\<close>; a plain host is ASCII text
  without a delimiter, a bracket, a tab or a line break; a plain segment is non-empty text
  without a delimiter, a tab or a line break; a plain path is empty or starts with \<open>/\<close> and
  has no \<open>?\<close>, \<open>#\<close>, tab or line break; what follows the path is nothing, a query that
  starts with \<open>?\<close> or a fragment that starts with \<open>#\<close>.
\<close>

definition valid_scheme :: "string \<Rightarrow> bool" where
  "valid_scheme s = (s \<noteq> [] \<and> is_ascii_alpha (hd s) \<and> list_all scheme_chars s)"

definition plain_host :: "string \<Rightarrow> bool" where
  "plain_host h = list_all (\<lambda>c. is_ascii c \<and> \<not> netloc_delim c
       \<and> c \<notin> {CHR ''['', CHR '']''} \<and> c \<notin> UNSAFE_URL_BYTES_TO_REMOVE) h"

definition plain_segment :: "string \<Rightarrow> bool" where
  "plain_segment s = (s \<noteq> [] \<and> list_all (\<lambda>c. \<not> netloc_delim c \<and> c \<notin> UNSAFE_URL_BYTES_TO_REMOVE) s)"

definition plain_path :: "string \<Rightarrow> bool" where
  "plain_path p = ((p = [] \<or> hd p = CHR ''/'')
     \<and> list_all (\<lambda>c. c \<noteq> CHR ''?'' \<and> c \<noteq> CHR ''#'' \<and> c \<notin> UNSAFE_URL_BYTES_TO_REMOVE) p)"

definition url_tail :: "string \<Rightarrow> bool" where
  "url_tail t = (t = [] \<or> hd t = CHR ''?'' \<or> hd t = CHR ''#'')"

text \<open>The path that \<open>urlsplit\<close> keeps of the text after the host: up to the first \<open>#\<close> or \<open>?\<close>.\<close>

definition cut_path :: "string \<Rightarrow> string" where
  "cut_path u = takeWhile (\<lambda>c. c \<noteq> CHR ''?'') (takeWhile (\<lambda>c. c \<noteq> CHR ''#'') u)"

section \<open>Example inputs\<close>

text \<open>
  Concrete values on which the theorems below are evaluated: validations that accept every
  network location, an SDK that answers every call, an environment with the four variables
  set, and a RAG library whose first query fails.
\<close>

definition lenient_checks :: netloc_checks where
  "lenient_checks = \<lparr>check_bracketed_netloc = (\<lambda>_. True), checknetloc_nfkc = (\<lambda>_. True)\<rparr>"

definition example_externals :: "(string, int, int list, int list list) externals" where
  "example_externals =
     \<lparr>chat_completions_create = (\<lambda>model messages kw. Inr [Some ''ok'']),
      embeddings_create = (\<lambda>model inp kw. Inr [EmbeddingList [1, 2]]),
      client_close = None,
      np_array_float32 = (\<lambda>xs. Inr xs),
      np_frombuffer_b64decode = (\<lambda>s. Inl (ValueError ''Incorrect padding'')),
      np_array_rows = (\<lambda>rows. Inr rows)\<rparr>"

definition example_env :: environ where
  "example_env = map_of
     [(''AZURE_OPENAI_API_KEY'', ''secret''),
      (''AZURE_OPENAI_ENDPOINT'', ''https://acme.openai.azure.com''),
      (''AZURE_OPENAI_LLM_DEPLOYMENT'', ''gpt-4o-mini''),
      (''AZURE_OPENAI_EMBEDDING_DEPLOYMENT'', ''text-embedding-3-small'')]"

definition env_without :: "string \<Rightarrow> environ" where
  "env_without name = example_env(name := None)"

definition example_binding_env :: environ where
  "example_binding_env = map_of
     [(''LLM_BINDING_HOST'', ''https://acme.openai.azure.com/openai/deployments/gpt-4o-mini/chat/completions?api-version=2025-01-01-preview''),
      (''EMBEDDING_BINDING_API_KEY'', ''secret''),
      (''EMBEDDING_BINDING_HOST'', ''https://acme.openai.azure.com/openai/deployments/text-embedding-3-small/embeddings?api-version=2023-05-15'')]"

definition example_aquery :: "nat \<Rightarrow> string \<Rightarrow> (exn + string) \<times> nat" where
  "example_aquery calls q =
     (if calls = 0 then (Inl (Exception ''timeout''), Suc calls) else (Inr ''answer'', Suc calls))"

section \<open>Properties of the string operations\<close>

lemma split_nonempty: "split sep s \<noteq> []"
  by (induction s) (auto split: list.splits)

lemma split_no_sep: "sep \<notin> set s \<Longrightarrow> split sep s = [s]"
  by (induction s) auto

lemma split_append_sep: "split sep (xs @ sep # ys) = split sep xs @ split sep ys"
proof (induction xs)
  case Nil
  show ?case by (simp add: split_no_sep)
next
  case (Cons x xs)
  show ?case
  proof (cases "x = sep")
    case True
    with Cons show ?thesis by simp
  next
    case False
    obtain w ws where s: "split sep xs = w # ws"
      using split_nonempty[of sep xs] by (cases "split sep xs") auto
    with False Cons show ?thesis by simp
  qed
qed

lemma rstrip_append:
  "rstrip cs (xs @ ys) = (if rstrip cs ys = [] then rstrip cs xs else xs @ rstrip cs ys)"
  by (auto simp: rstrip_def dropWhile_append)

lemma rstrip_last: "s \<noteq> [] \<Longrightarrow> last s \<notin> cs \<Longrightarrow> rstrip cs s = s"
  by (cases s rule: rev_cases) (auto simp: rstrip_def)

lemma rstrip_Cons_keep: "rstrip cs (x # s) \<noteq> [] \<Longrightarrow> \<exists>r. rstrip cs (x # s) = x # r"
  using rstrip_append[of cs "[x]" s] by (auto split: if_splits simp: rstrip_def)

lemma filter_id: "list_all (\<lambda>c. c \<notin> A) s \<Longrightarrow> filter (\<lambda>c. c \<notin> A) s = s"
  by (induction s) auto

lemma takeWhile_stop: "list_all P xs \<Longrightarrow> \<not> P y \<Longrightarrow> takeWhile P (xs @ y # ys) = xs"
  by (induction xs) auto

lemma dropWhile_stop: "list_all P xs \<Longrightarrow> \<not> P y \<Longrightarrow> dropWhile P (xs @ y # ys) = y # ys"
  by (induction xs) auto

lemma takeWhile_pass: "list_all P xs \<Longrightarrow> takeWhile P (xs @ ys) = xs @ takeWhile P ys"
  by (induction xs) auto

lemma takeWhile_length_stop: "\<not> P y \<Longrightarrow> length (takeWhile P (xs @ y # ys)) \<le> length xs"
  by (induction xs) auto

lemma takeWhile_absent: "sep \<notin> set u \<Longrightarrow> takeWhile (\<lambda>c. c \<noteq> sep) u = u"
  by (induction u) auto

lemma takeWhile_all: "list_all P xs \<Longrightarrow> takeWhile P xs = xs"
  by (induction xs) auto

lemma takeWhile_same_replicate:
  "takeWhile (\<lambda>x. x = c) xs = replicate (length (takeWhile (\<lambda>x. x = c) xs)) c"
  by (induction xs) auto

lemma split_replicate: "split c (replicate n c) = replicate (Suc n) []"
  by (induction n) auto

lemma split_leading: "split c (replicate n c @ s) = replicate n [] @ split c s"
  by (induction n) auto

lemma split_trailing: "split c (s @ replicate n c) = split c s @ replicate n []"
proof (cases n)
  case 0
  then show ?thesis by simp
next
  case (Suc m)
  have "split c (s @ c # replicate m c) = split c s @ split c (replicate m c)"
    by (rule split_append_sep)
  with Suc show ?thesis by (simp add: split_replicate replicate_append_same)
qed

lemma strip_decompose:
  "\<exists>a b. s = replicate a c @ strip {c} s @ replicate b c"
proof -
  define t where "t = dropWhile (\<lambda>x. x = c) s"
  have s: "s = replicate (length (takeWhile (\<lambda>x. x = c) s)) c @ t"
    unfolding t_def using takeWhile_same_replicate[of c s] takeWhile_dropWhile_id[of "\<lambda>x. x = c" s]
    by metis
  have "rev t = takeWhile (\<lambda>x. x = c) (rev t) @ dropWhile (\<lambda>x. x = c) (rev t)" by simp
  then have "rev (rev t) = rev (dropWhile (\<lambda>x. x = c) (rev t)) @ rev (takeWhile (\<lambda>x. x = c) (rev t))"
    by (metis rev_append)
  moreover have "rev (takeWhile (\<lambda>x. x = c) (rev t))
      = replicate (length (takeWhile (\<lambda>x. x = c) (rev t))) c"
    using takeWhile_same_replicate[of c "rev t"] by (metis rev_replicate)
  ultimately have t: "t = rev (dropWhile (\<lambda>x. x = c) (rev t))
      @ replicate (length (takeWhile (\<lambda>x. x = c) (rev t))) c"
    by simp
  have st: "strip {c} s = rev (dropWhile (\<lambda>x. x = c) (rev t))"
    by (simp add: strip_def lstrip_def rstrip_def t_def)
  show ?thesis using s t st by metis
qed

lemma split_strip_embedded:
  "\<exists>a b. split c s = replicate a [] @ split c (strip {c} s) @ replicate b []"
proof -
  obtain a b where "s = replicate a c @ strip {c} s @ replicate b c"
    using strip_decompose by blast
  then have "split c s = split c (replicate a c @ (strip {c} s @ replicate b c))" by simp
  then show ?thesis by (simp only: split_leading split_trailing) blast
qed

lemma split_strip_neighbours:
  assumes "split c (strip {c} s) = pre @ x # d # post"
  shows "\<exists>pre' post'. split c s = pre' @ x # d # post'"
proof -
  obtain a b where "split c s = replicate a [] @ split c (strip {c} s) @ replicate b []"
    using split_strip_embedded by blast
  then have "split c s = (replicate a [] @ pre) @ x # d # (post @ replicate b [])"
    using assms by simp
  then show ?thesis by blast
qed

lemma not_last_of_snoc:
  assumes "xs @ [l] = pre @ x # d # post"
  shows "x \<in> set xs"
proof -
  have "butlast (xs @ [l]) = butlast (pre @ x # d # post)" using assms by simp
  then have "xs = pre @ x # butlast (d # post)" by (simp add: butlast_append)
  then show ?thesis by (metis in_set_conv_decomp)
qed

section \<open>The URL parser on a URL with a scheme and a host\<close>

lemma alpha_facts:
  "is_ascii_alpha c \<Longrightarrow> is_ascii c \<and> c \<notin> WHATWG_C0_CONTROL_OR_SPACE"
  by (auto simp: is_ascii_alpha_def is_ascii_def WHATWG_C0_CONTROL_OR_SPACE_def Let_def)

lemma scheme_chars_facts:
  "scheme_chars c \<Longrightarrow> c \<noteq> CHR '':'' \<and> c \<notin> UNSAFE_URL_BYTES_TO_REMOVE"
  by (auto simp: scheme_chars_def is_ascii_alpha_def is_digit_def UNSAFE_URL_BYTES_TO_REMOVE_def Let_def)

lemma split_scheme_form:
  assumes "valid_scheme s"
  shows "split_scheme (s @ ''://'' @ r) = (lower s, ''//'' @ r)"
proof -
  have ne: "s \<noteq> []" and al: "is_ascii_alpha (hd s)" and sc: "list_all scheme_chars s"
    using assms by (simp_all add: valid_scheme_def)
  have nc: "list_all (\<lambda>c. c \<noteq> CHR '':'') s"
    using sc scheme_chars_facts by (induction s) auto
  have tw: "takeWhile (\<lambda>c. c \<noteq> CHR '':'') (s @ CHR '':'' # ''//'' @ r) = s"
    using nc by (rule takeWhile_stop) simp
  have hd: "hd (s @ CHR '':'' # ''//'' @ r) = hd s" using ne by simp
  have "split_scheme (s @ CHR '':'' # ''//'' @ r) = (lower s, ''//'' @ r)"
    unfolding split_scheme_def tw hd Let_def using ne al sc alpha_facts[OF al] by simp
  then show ?thesis by simp
qed

lemma splitnetloc_form:
  assumes "plain_host h"
  shows "splitnetloc (''//'' @ h @ CHR ''/'' # r) = (h, CHR ''/'' # r)"
proof -
  have nd: "list_all (\<lambda>c. \<not> netloc_delim c) h"
    using assms by (induction h) (auto simp: plain_host_def)
  have d: "\<not> \<not> netloc_delim CHR ''/''" by (simp add: netloc_delim_def)
  have "drop 2 (''//'' @ h @ CHR ''/'' # r) = h @ CHR ''/'' # r" by simp
  then show ?thesis
    unfolding splitnetloc_def using takeWhile_stop[OF nd d] dropWhile_stop[OF nd d] by simp
qed

lemma urlsplit_form:
  assumes s: "valid_scheme s" and h: "plain_host h"
  shows "\<exists>q f. urlsplit chk (s @ ''://'' @ h @ CHR ''/'' # r)
           = Inr (lower s, h, cut_path (CHR ''/'' # filter (\<lambda>c. c \<notin> UNSAFE_URL_BYTES_TO_REMOVE) r), q, f)"
proof -
  let ?safe = "\<lambda>c. c \<notin> UNSAFE_URL_BYTES_TO_REMOVE"
  define r' where "r' = filter ?safe r"
  have ne: "s \<noteq> []" and al: "is_ascii_alpha (hd s)" and sc: "list_all scheme_chars s"
    using s by (simp_all add: valid_scheme_def)
  have l: "lstrip WHATWG_C0_CONTROL_OR_SPACE (s @ ''://'' @ h @ CHR ''/'' # r)
             = s @ ''://'' @ h @ CHR ''/'' # r"
    using ne alpha_facts[OF al] by (cases s) (simp_all add: lstrip_def)
  have fs: "filter ?safe s = s"
    using sc scheme_chars_facts by (intro filter_id) (induction s, auto)
  have fh: "filter ?safe h = h"
    using h by (intro filter_id) (induction h, auto simp: plain_host_def)
  have f: "filter ?safe (s @ ''://'' @ h @ CHR ''/'' # r) = s @ ''://'' @ (h @ CHR ''/'' # r')"
  proof -
    have "?safe CHR '':''" "?safe CHR ''/''"
      by (simp_all add: UNSAFE_URL_BYTES_TO_REMOVE_def)
    then show ?thesis by (simp add: fs fh r'_def)
  qed
  have nb: "CHR ''['' \<notin> set h" "CHR '']'' \<notin> set h"
    using h by (induction h) (auto simp: plain_host_def)
  have asc: "list_all is_ascii h"
    using h by (induction h) (auto simp: plain_host_def)
  have t2: "take 2 (''//'' @ h @ CHR ''/'' # r') = ''//''" by simp
  show ?thesis
    unfolding urlsplit_def l f split_scheme_form[OF s] Let_def prod.case t2
      splitnetloc_form[OF h] r'_def[symmetric] cut_path_def
    using nb asc
    by (simp add: split_once_def takeWhile_absent split: prod.splits)
qed

lemma rfind_slash_bound: "length p \<le> rfind_slash (p @ CHR ''/'' # t)"
proof -
  have "length (takeWhile (\<lambda>c. c \<noteq> CHR ''/'') (rev t @ CHR ''/'' # rev p)) \<le> length (rev t)"
    by (rule takeWhile_length_stop) simp
  then show ?thesis by (simp add: rfind_slash_def)
qed

lemma splitparams_keeps:
  "\<exists>t'. fst (splitparams (p @ CHR ''/'' # t)) = p @ CHR ''/'' # t'"
proof -
  define k where "k = rfind_slash (p @ CHR ''/'' # t)"
  have kb: "length p \<le> k" unfolding k_def by (rule rfind_slash_bound)
  have "\<exists>t'. take k (p @ CHR ''/'' # t)
           @ takeWhile (\<lambda>c. c \<noteq> CHR '';'') (drop k (p @ CHR ''/'' # t)) = p @ CHR ''/'' # t'"
  proof (cases "k = length p")
    case True
    then show ?thesis by simp
  next
    case False
    with kb obtain j where "k - length p = Suc j" by (cases "k - length p") auto
    with kb show ?thesis by simp
  qed
  then show ?thesis
    by (auto simp: splitparams_def Let_def k_def[symmetric])
qed

lemma urlparse_form:
  assumes s: "valid_scheme s" and h: "plain_host h"
    and b: "list_all (\<lambda>c. c \<noteq> CHR ''?'' \<and> c \<noteq> CHR ''#'' \<and> c \<notin> UNSAFE_URL_BYTES_TO_REMOVE) b"
  shows "\<exists>parsed t. urlparse chk (s @ ''://'' @ h @ CHR ''/'' # b @ CHR ''/'' # r) = Inr parsed
           \<and> scheme parsed = lower s \<and> netloc parsed = h
           \<and> path parsed = CHR ''/'' # b @ CHR ''/'' # t"
proof -
  let ?safe = "\<lambda>c. c \<notin> UNSAFE_URL_BYTES_TO_REMOVE"
  have sb: "filter ?safe b = b"
    using b by (intro filter_id) (induction b, auto)
  have nh: "list_all (\<lambda>c. c \<noteq> CHR ''#'') (CHR ''/'' # b @ ''/'')"
    and nq: "list_all (\<lambda>c. c \<noteq> CHR ''?'') (CHR ''/'' # b @ ''/'')"
    using b by (induction b) auto
  have sl: "?safe CHR ''/''" by (simp add: UNSAFE_URL_BYTES_TO_REMOVE_def)
  have "CHR ''/'' # filter ?safe (b @ CHR ''/'' # r) = (CHR ''/'' # b @ ''/'') @ filter ?safe r"
    using sl by (simp add: sb)
  then have "cut_path (CHR ''/'' # filter ?safe (b @ CHR ''/'' # r))
      = (CHR ''/'' # b @ ''/'') @ cut_path (filter ?safe r)"
    unfolding cut_path_def by (simp only: takeWhile_pass[OF nh] takeWhile_pass[OF nq])
  then obtain u where u: "cut_path (CHR ''/'' # filter ?safe (b @ CHR ''/'' # r))
      = (CHR ''/'' # b) @ CHR ''/'' # u"
    by simp
  obtain q f where sp: "urlsplit chk (s @ ''://'' @ h @ CHR ''/'' # b @ CHR ''/'' # r)
      = Inr (lower s, h, (CHR ''/'' # b) @ CHR ''/'' # u, q, f)"
    using urlsplit_form[OF s h, of chk "b @ CHR ''/'' # r"] unfolding u by auto
  obtain t' where t': "fst (splitparams ((CHR ''/'' # b) @ CHR ''/'' # u)) = (CHR ''/'' # b) @ CHR ''/'' # t'"
    using splitparams_keeps by blast
  show ?thesis
    unfolding urlparse_def sp using t'
    by (cases "splitparams ((CHR ''/'' # b) @ CHR ''/'' # u)") (auto simp: Let_def)
qed

lemma splitnetloc_general:
  assumes "plain_host h" and "r = [] \<or> netloc_delim (hd r)"
  shows "splitnetloc (''//'' @ h @ r) = (h, r)"
proof (cases r)
  case Nil
  have nd: "list_all (\<lambda>c. \<not> netloc_delim c) h"
    using assms(1) by (induction h) (auto simp: plain_host_def)
  then have "takeWhile (\<lambda>c. \<not> netloc_delim c) h = h" "dropWhile (\<lambda>c. \<not> netloc_delim c) h = []"
    by (induction h) auto
  with Nil show ?thesis by (simp add: splitnetloc_def)
next
  case (Cons y ys)
  have nd: "list_all (\<lambda>c. \<not> netloc_delim c) h"
    using assms(1) by (induction h) (auto simp: plain_host_def)
  have d: "\<not> \<not> netloc_delim y" using assms(2) Cons by simp
  have "drop 2 (''//'' @ h @ y # ys) = h @ y # ys" by simp
  then show ?thesis
    unfolding splitnetloc_def Cons using takeWhile_stop[OF nd d] dropWhile_stop[OF nd d] by simp
qed

lemma urlsplit_general:
  assumes s: "valid_scheme s" and h: "plain_host h" and r: "r = [] \<or> netloc_delim (hd r)"
  shows "\<exists>q f. urlsplit chk (s @ ''://'' @ h @ r)
           = Inr (lower s, h, cut_path (filter (\<lambda>c. c \<notin> UNSAFE_URL_BYTES_TO_REMOVE) r), q, f)"
proof -
  let ?safe = "\<lambda>c. c \<notin> UNSAFE_URL_BYTES_TO_REMOVE"
  define r' where "r' = filter ?safe r"
  have ne: "s \<noteq> []" and al: "is_ascii_alpha (hd s)" and sc: "list_all scheme_chars s"
    using s by (simp_all add: valid_scheme_def)
  have l: "lstrip WHATWG_C0_CONTROL_OR_SPACE (s @ ''://'' @ h @ r) = s @ ''://'' @ h @ r"
    using ne alpha_facts[OF al] by (cases s) (simp_all add: lstrip_def)
  have fs: "filter ?safe s = s"
    using sc scheme_chars_facts by (intro filter_id) (induction s, auto)
  have fh: "filter ?safe h = h"
    using h by (intro filter_id) (induction h, auto simp: plain_host_def)
  have f: "filter ?safe (s @ ''://'' @ h @ r) = s @ ''://'' @ (h @ r')"
  proof -
    have "?safe CHR '':''" "?safe CHR ''/''"
      by (simp_all add: UNSAFE_URL_BYTES_TO_REMOVE_def)
    then show ?thesis by (simp add: fs fh r'_def)
  qed
  have r': "r' = [] \<or> netloc_delim (hd r')"
  proof (cases r)
    case Nil
    then show ?thesis by (simp add: r'_def)
  next
    case (Cons y ys)
    with r have "netloc_delim y" by simp
    then have "?safe y" by (auto simp: netloc_delim_def UNSAFE_URL_BYTES_TO_REMOVE_def)
    with Cons \<open>netloc_delim y\<close> show ?thesis by (simp add: r'_def)
  qed
  have nb: "CHR ''['' \<notin> set h" "CHR '']'' \<notin> set h"
    using h by (induction h) (auto simp: plain_host_def)
  have asc: "list_all is_ascii h"
    using h by (induction h) (auto simp: plain_host_def)
  have t2: "take 2 (''//'' @ h @ r') = ''//''" by simp
  show ?thesis
    unfolding urlsplit_def l f split_scheme_form[OF s] Let_def prod.case t2
      splitnetloc_general[OF h r'] r'_def[symmetric] cut_path_def
    using nb asc
    by (simp add: split_once_def takeWhile_absent split: prod.splits)
qed

lemma cut_path_plain:
  assumes "plain_path p" and "url_tail t"
  shows "cut_path (filter (\<lambda>c. c \<notin> UNSAFE_URL_BYTES_TO_REMOVE) (p @ t)) = p"
proof -
  let ?safe = "\<lambda>c. c \<notin> UNSAFE_URL_BYTES_TO_REMOVE"
  have pl: "list_all (\<lambda>c. c \<noteq> CHR ''?'' \<and> c \<noteq> CHR ''#'' \<and> c \<notin> UNSAFE_URL_BYTES_TO_REMOVE) p"
    using assms(1) by (simp add: plain_path_def)
  have fp: "filter ?safe p = p" using pl by (intro filter_id) (induction p, auto)
  have nh: "list_all (\<lambda>c. c \<noteq> CHR ''#'') p" and nq: "list_all (\<lambda>c. c \<noteq> CHR ''?'') p"
    using pl by (induction p) auto
  define t' where "t' = filter ?safe t"
  have t': "t' = [] \<or> hd t' = CHR ''?'' \<or> hd t' = CHR ''#''"
  proof (cases t)
    case Nil
    then show ?thesis by (simp add: t'_def)
  next
    case (Cons y ys)
    with assms(2) have y: "y = CHR ''?'' \<or> y = CHR ''#''" by (simp add: url_tail_def)
    then have "?safe y" by (auto simp: UNSAFE_URL_BYTES_TO_REMOVE_def)
    with Cons y show ?thesis by (auto simp: t'_def)
  qed
  have "cut_path (p @ t') = p"
  proof (cases t')
    case Nil
    then show ?thesis
      unfolding cut_path_def using nh nq by (simp add: takeWhile_all)
  next
    case (Cons y ys)
    with t' have y: "y = CHR ''?'' \<or> y = CHR ''#''" by simp
    show ?thesis
    proof (cases "y = CHR ''#''")
      case True
      then have "takeWhile (\<lambda>c. c \<noteq> CHR ''#'') (p @ y # ys) = p"
        using nh by (intro takeWhile_stop) simp_all
      moreover have "takeWhile (\<lambda>c. c \<noteq> CHR ''?'') p = p"
        using nq by (rule takeWhile_all)
      ultimately show ?thesis by (simp add: cut_path_def Cons)
    next
      case False
      with y have q: "y = CHR ''?''" by simp
      have "takeWhile (\<lambda>c. c \<noteq> CHR ''#'') (p @ y # ys)
          = p @ y # takeWhile (\<lambda>c. c \<noteq> CHR ''#'') ys"
        using takeWhile_pass[OF nh, of "y # ys"] q by simp
      moreover have "takeWhile (\<lambda>c. c \<noteq> CHR ''?'') (p @ y # takeWhile (\<lambda>c. c \<noteq> CHR ''#'') ys) = p"
        using nq q by (intro takeWhile_stop) simp_all
      ultimately show ?thesis by (simp add: cut_path_def Cons)
    qed
  qed
  then show ?thesis by (simp add: fp t'_def)
qed

lemma rfind_slash_last:
  assumes "CHR ''/'' \<notin> set t"
  shows "rfind_slash (q @ CHR ''/'' # t) = length q"
proof -
  have "list_all (\<lambda>c. c \<noteq> CHR ''/'') (rev t)"
    using assms by (auto simp: list_all_iff)
  then have "takeWhile (\<lambda>c. c \<noteq> CHR ''/'') (rev t @ CHR ''/'' # rev q) = rev t"
    by (rule takeWhile_stop) simp
  then show ?thesis by (simp add: rfind_slash_def)
qed

lemma splitparams_plain_path:
  assumes "plain_path p" and "CHR '';'' \<in> set p"
  shows "fst (splitparams p) = p
       \<or> (\<exists>q t. p = q @ CHR ''/'' # t \<and> CHR ''/'' \<notin> set t
             \<and> fst (splitparams p) = q @ CHR ''/'' # takeWhile (\<lambda>c. c \<noteq> CHR '';'') t)"
proof -
  from assms have "p \<noteq> []" by auto
  with assms(1) have "hd p = CHR ''/''" by (simp add: plain_path_def)
  with \<open>p \<noteq> []\<close> have sl: "CHR ''/'' \<in> set p" by (metis hd_in_set)
  then obtain q t where p: "p = q @ CHR ''/'' # t" and t: "CHR ''/'' \<notin> set t"
    using split_list_last[of "CHR ''/''" p] by blast
  have k: "rfind_slash p = length q" unfolding p using t by (rule rfind_slash_last)
  have "fst (splitparams p) = p \<or> fst (splitparams p) = q @ CHR ''/'' # takeWhile (\<lambda>c. c \<noteq> CHR '';'') t"
    using sl by (simp add: splitparams_def k Let_def) (simp add: p)
  with p t show ?thesis by blast
qed

section \<open>The resolver\<close>

lemma path_parts_deployment:
  assumes "name \<noteq> []" "CHR ''/'' \<notin> set name"
  shows "\<exists>rest. path_parts_of (''/openai/deployments/'' @ name @ ''/'' @ s)
            = ''openai'' # ''deployments'' # name # rest"
proof -
  define X where "X = ''openai/deployments/'' @ name"
  have l: "lstrip {CHR ''/''} (''/openai/deployments/'' @ name @ ''/'' @ s) = X @ CHR ''/'' # s"
    by (simp add: lstrip_def X_def)
  have "last name \<in> set name" using assms by simp
  with assms have "last name \<noteq> CHR ''/''" by metis
  with assms have lastX: "last X \<notin> {CHR ''/''}"
    by (simp add: last_append X_def)
  have "X \<noteq> []" by (simp add: X_def)
  then have rX: "rstrip {CHR ''/''} X = X"
    using lastX by (rule rstrip_last)
  have sX: "split CHR ''/'' X = [''openai'', ''deployments'', name]"
  proof -
    have "X = ''openai'' @ CHR ''/'' # (''deployments'' @ CHR ''/'' # name)"
      by (simp add: X_def)
    then have "split CHR ''/'' X
        = split CHR ''/'' ''openai'' @ split CHR ''/'' ''deployments'' @ split CHR ''/'' name"
      by (simp only: split_append_sep)
    moreover have "split CHR ''/'' ''openai'' = [''openai'']" by (rule split_no_sep) simp
    moreover have "split CHR ''/'' ''deployments'' = [''deployments'']" by (rule split_no_sep) simp
    moreover have "split CHR ''/'' name = [name]" using assms by (intro split_no_sep)
    ultimately show ?thesis by simp
  qed
  have pp: "path_parts_of (''/openai/deployments/'' @ name @ ''/'' @ s)
      = split CHR ''/'' (rstrip {CHR ''/''} (X @ CHR ''/'' # s))"
    by (simp only: path_parts_of_def strip_def l)
  show ?thesis
  proof (cases "rstrip {CHR ''/''} (CHR ''/'' # s) = []")
    case True
    then have "rstrip {CHR ''/''} (X @ CHR ''/'' # s) = X"
      by (simp add: rstrip_append rX)
    then show ?thesis by (simp only: pp sX) simp
  next
    case False
    then obtain r where r: "rstrip {CHR ''/''} (CHR ''/'' # s) = CHR ''/'' # r"
      using rstrip_Cons_keep by blast
    have "rstrip {CHR ''/''} (X @ CHR ''/'' # s) = X @ CHR ''/'' # r"
      using False r by (simp add: rstrip_append)
    then have "path_parts_of (''/openai/deployments/'' @ name @ ''/'' @ s)
        = split CHR ''/'' X @ split CHR ''/'' r"
      by (simp only: pp split_append_sep)
    then show ?thesis by (simp only: sX) simp
  qed
qed

lemma deployment_of_found:
  "deployment_of (''openai'' # ''deployments'' # name # rest) = Some name"
  by (simp add: deployment_of_def)

text \<open>
  Claim C1, as the code has it. For a URL \<open>scheme://host/openai/deployments/name/op?query\<close>
  with a valid scheme, a plain host and a plain non-empty name, \<open>parse_azure_url\<close> returns the
  base URL \<open>lower(scheme)://host/openai/\<close> and the deployment name \<open>name\<close>, whatever the
  operation segment and the query string are. The scheme comes back in lower case, so the
  base URL is the one written in the URL only when the scheme is written in lower case.
\<close>

theorem resolve_deployment_url:
  assumes "valid_scheme sch" and "plain_host host" and "plain_segment name"
  shows "parse_azure_url chk
           (Some (sch @ ''://'' @ host @ ''/openai/deployments/'' @ name @ ''/'' @ op @ ''?'' @ qs))
         = Inr (Some (lower sch @ ''://'' @ host @ ''/openai/''), Some name)"
proof -
  define b where "b = ''openai/deployments/'' @ name"
  define url where "url = sch @ ''://'' @ host @ ''/openai/deployments/'' @ name @ ''/'' @ op @ ''?'' @ qs"
  have ne: "name \<noteq> []"
    and nm: "list_all (\<lambda>c. \<not> netloc_delim c \<and> c \<notin> UNSAFE_URL_BYTES_TO_REMOVE) name"
    using assms(3) by (simp_all add: plain_segment_def)
  have ns: "CHR ''/'' \<notin> set name"
    using nm by (induction name) (auto simp: netloc_delim_def)
  have "list_all (\<lambda>c. c \<noteq> CHR ''?'' \<and> c \<noteq> CHR ''#'' \<and> c \<notin> UNSAFE_URL_BYTES_TO_REMOVE) name"
    using nm by (induction name) (auto simp: netloc_delim_def)
  then have bb: "list_all (\<lambda>c. c \<noteq> CHR ''?'' \<and> c \<noteq> CHR ''#'' \<and> c \<notin> UNSAFE_URL_BYTES_TO_REMOVE) b"
    by (simp add: b_def UNSAFE_URL_BYTES_TO_REMOVE_def)
  have form: "url = sch @ ''://'' @ host @ CHR ''/'' # b @ CHR ''/'' # (op @ ''?'' @ qs)"
    by (simp add: url_def b_def)
  obtain parsed t where p: "urlparse chk url = Inr parsed"
    and ps: "scheme parsed = lower sch" and pn: "netloc parsed = host"
    and pp: "path parsed = CHR ''/'' # b @ CHR ''/'' # t"
    using urlparse_form[OF assms(1,2) bb, of chk "op @ ''?'' @ qs"] unfolding form by blast
  have "path parsed = ''/openai/deployments/'' @ name @ ''/'' @ t"
    by (simp add: pp b_def)
  then obtain rest where parts:
    "path_parts_of (path parsed) = ''openai'' # ''deployments'' # name # rest"
    using path_parts_deployment[OF ne ns, of t] by auto
  have "url \<noteq> []" using assms(1) by (simp add: url_def valid_scheme_def)
  then have "parse_azure_url chk (Some url)
      = Inr (Some (lower sch @ ''://'' @ host @ ''/openai/''), Some name)"
    by (simp add: parse_azure_url_def p ps pn parts deployment_of_found Let_def)
  then show ?thesis by (simp only: url_def)
qed

theorem resolve_deployment_url_witness:
  "valid_scheme ''https'' \<and> plain_host ''acme-east2.cognitiveservices.azure.com''
   \<and> plain_segment ''gpt-4o-mini''
   \<and> parse_azure_url lenient_checks (Some (''https'' @ ''://'' @ ''acme-east2.cognitiveservices.azure.com''
          @ ''/openai/deployments/'' @ ''gpt-4o-mini'' @ ''/'' @ ''chat/completions'' @ ''?''
          @ ''api-version=2025-01-01-preview''))
     = Inr (Some ''https://acme-east2.cognitiveservices.azure.com/openai/'', Some ''gpt-4o-mini'')"
proof -
  have s: "valid_scheme ''https''" by code_simp
  have h: "plain_host ''acme-east2.cognitiveservices.azure.com''" by code_simp
  have n: "plain_segment ''gpt-4o-mini''" by code_simp
  have l: "lower ''https'' = ''https''" by code_simp
  show ?thesis
    using s h n resolve_deployment_url [OF s h n, of lenient_checks "''chat/completions''"
        "''api-version=2025-01-01-preview''"]
    by (simp add: l)
qed

text \<open>
  The claim as stated fails for a scheme written in upper case: the base URL starts with
  \<open>https://\<close>, not with \<open>HTTPS://\<close>.
\<close>

theorem resolve_uppercase_scheme_counterexample:
  "parse_azure_url lenient_checks (Some ''HTTPS://acme.openai.azure.com/openai/deployments/gpt-4o-mini/chat/completions?api-version=2024-08-01-preview'')
     = Inr (Some ''https://acme.openai.azure.com/openai/'', Some ''gpt-4o-mini'')
   \<and> ''https://acme.openai.azure.com/openai/'' \<noteq> ''HTTPS://acme.openai.azure.com/openai/''"
  by code_simp

text \<open>
  Claim C7. For an absent (\<open>None\<close>) or empty URL the resolver returns \<open>(None, None)\<close>; it
  returns a value, it does not raise.
\<close>

theorem resolve_absent_or_empty:
  "parse_azure_url chk None = Inr (None, None) \<and> parse_azure_url chk (Some '''') = Inr (None, None)"
  by (simp add: parse_azure_url_def)

lemma deployment_of_Some:
  assumes "deployment_of parts = Some d"
  shows "\<exists>pre post. parts = pre @ ''deployments'' # d # post"
proof -
  define tw where "tw = takeWhile (\<lambda>s. s \<noteq> ''deployments'') parts"
  define dw where "dw = dropWhile (\<lambda>s. s \<noteq> ''deployments'') parts"
  from assms have mem: "''deployments'' \<in> set parts" and lt: "length tw + 1 < length parts"
    and d: "d = parts ! (length tw + 1)"
    by (auto simp: deployment_of_def Let_def tw_def split: if_splits)
  have parts: "parts = tw @ dw" by (simp add: tw_def dw_def)
  have "dw \<noteq> []" using mem by (simp add: dw_def dropWhile_eq_Nil_conv)
  then have "hd dw = ''deployments''"
    unfolding dw_def using hd_dropWhile[of "\<lambda>s. s \<noteq> ''deployments''" parts] by simp
  with \<open>dw \<noteq> []\<close> obtain ys where dw: "dw = ''deployments'' # ys" by (cases dw) auto
  have "length parts = length tw + 1 + length ys"
    by (simp add: parts dw)
  with lt obtain z zs where zs: "ys = z # zs" by (cases ys) auto
  have "(tw @ ''deployments'' # z # zs) ! (length tw + 1) = z" by (simp add: nth_append)
  then have "d = z" using d by (simp add: parts dw zs)
  then show ?thesis using parts dw zs by blast
qed

lemma no_deployment_plain:
  assumes "''deployments'' \<notin> set (split CHR ''/'' p)"
  shows "deployment_of (path_parts_of p) = None"
proof (rule ccontr)
  assume "deployment_of (path_parts_of p) \<noteq> None"
  then obtain d where "deployment_of (path_parts_of p) = Some d" by auto
  then obtain pre post where "path_parts_of p = pre @ ''deployments'' # d # post"
    using deployment_of_Some by blast
  then obtain pre' post' where "split CHR ''/'' p = pre' @ ''deployments'' # d # post'"
    unfolding path_parts_of_def using split_strip_neighbours by blast
  with assms show False by simp
qed

lemma no_deployment_cut:
  assumes "''deployments'' \<notin> set (split CHR ''/'' (q @ CHR ''/'' # t))" and "CHR ''/'' \<notin> set t"
  shows "deployment_of (path_parts_of (q @ CHR ''/'' # takeWhile (\<lambda>c. c \<noteq> CHR '';'') t)) = None"
proof (rule ccontr)
  define t' where "t' = takeWhile (\<lambda>c. c \<noteq> CHR '';'') t"
  assume "deployment_of (path_parts_of (q @ CHR ''/'' # takeWhile (\<lambda>c. c \<noteq> CHR '';'') t)) \<noteq> None"
  then obtain d where "deployment_of (path_parts_of (q @ CHR ''/'' # t')) = Some d"
    by (auto simp: t'_def)
  then obtain pre post where "path_parts_of (q @ CHR ''/'' # t') = pre @ ''deployments'' # d # post"
    using deployment_of_Some by blast
  then obtain pre' post' where
    sp: "split CHR ''/'' (q @ CHR ''/'' # t') = pre' @ ''deployments'' # d # post'"
    unfolding path_parts_of_def using split_strip_neighbours by blast
  have a: "split CHR ''/'' (q @ CHR ''/'' # t') = split CHR ''/'' q @ split CHR ''/'' t'"
    by (rule split_append_sep)
  have b: "split CHR ''/'' (q @ CHR ''/'' # t) = split CHR ''/'' q @ split CHR ''/'' t"
    by (rule split_append_sep)
  with assms(1) have nq: "''deployments'' \<notin> set (split CHR ''/'' q)" by simp
  have "set t' \<subseteq> set t" unfolding t'_def by (auto dest: set_takeWhileD)
  with assms(2) have "CHR ''/'' \<notin> set t'" by auto
  then have "split CHR ''/'' t' = [t']" by (rule split_no_sep)
  with a sp have "split CHR ''/'' q @ [t'] = pre' @ ''deployments'' # d # post'" by simp
  then have "''deployments'' \<in> set (split CHR ''/'' q)" by (rule not_last_of_snoc)
  with nq show False by simp
qed

text \<open>
  Claim C6, as the code has it. For a URL \<open>scheme://host\<close> followed by a plain path and by
  nothing, a query or a fragment, with a valid scheme and a plain host, whose path has no
  segment \<open>deployments\<close>, the resolver returns no deployment name, and the base URL is
  \<open>lower(scheme)://host/openai/\<close>. The scheme comes back in lower case, so the base URL is
  the one written in the URL only when the scheme is written in lower case.
\<close>

theorem resolve_url_without_deployments:
  assumes "valid_scheme sch" and "plain_host host" and "plain_path p" and "url_tail t"
    and "''deployments'' \<notin> set (split CHR ''/'' p)"
  shows "parse_azure_url chk (Some (sch @ ''://'' @ host @ p @ t))
           = Inr (Some (lower sch @ ''://'' @ host @ ''/openai/''), None)"
proof -
  define url where "url = sch @ ''://'' @ host @ p @ t"
  have r: "p @ t = [] \<or> netloc_delim (hd (p @ t))"
    using assms(3,4) by (cases p) (auto simp: plain_path_def url_tail_def netloc_delim_def)
  obtain q f where sp: "urlsplit chk url = Inr (lower sch, host, p, q, f)"
    using urlsplit_general[OF assms(1,2) r, of chk] cut_path_plain[OF assms(3,4)]
    unfolding url_def by auto
  define path' where "path' = (if lower sch \<in> set uses_params \<and> CHR '';'' \<in> set p
      then fst (splitparams p) else p)"
  have "\<exists>parsed. urlparse chk url = Inr parsed \<and> scheme parsed = lower sch
      \<and> netloc parsed = host \<and> path parsed = path'"
    unfolding urlparse_def sp path'_def
    by (cases "splitparams p") (simp add: Let_def)
  then obtain parsed where up: "urlparse chk url = Inr parsed"
    and ps: "scheme parsed = lower sch" and pn: "netloc parsed = host" and pp: "path parsed = path'"
    by blast
  have "deployment_of (path_parts_of path') = None"
  proof (cases "lower sch \<in> set uses_params \<and> CHR '';'' \<in> set p")
    case False
    then have "path' = p" unfolding path'_def by (rule if_not_P)
    with assms(5) show ?thesis by (simp add: no_deployment_plain)
  next
    case True
    then have eq: "path' = fst (splitparams p)" unfolding path'_def by (rule if_P)
    from True splitparams_plain_path[OF assms(3)] consider
      "fst (splitparams p) = p"
      | q' t' where "p = q' @ CHR ''/'' # t'" "CHR ''/'' \<notin> set t'"
          "fst (splitparams p) = q' @ CHR ''/'' # takeWhile (\<lambda>c. c \<noteq> CHR '';'') t'"
      by blast
    then show ?thesis
    proof cases
      case 1
      with eq assms(5) show ?thesis by (simp add: no_deployment_plain)
    next
      case 2
      with assms(5) have "deployment_of (path_parts_of (q' @ CHR ''/'' # takeWhile (\<lambda>c. c \<noteq> CHR '';'') t')) = None"
        by (intro no_deployment_cut) simp_all
      with 2 eq show ?thesis by simp
    qed
  qed
  moreover have "url \<noteq> []" using assms(1) by (simp add: url_def valid_scheme_def)
  ultimately have "parse_azure_url chk (Some url)
      = Inr (Some (lower sch @ ''://'' @ host @ ''/openai/''), None)"
    by (simp add: parse_azure_url_def up ps pn pp Let_def)
  then show ?thesis by (simp only: url_def)
qed

theorem resolve_url_without_deployments_witness:
  "valid_scheme ''https'' \<and> plain_host ''acme.openai.azure.com'' \<and> plain_path ''/openai/models''
   \<and> url_tail ''?api-version=2024-10-21''
   \<and> ''deployments'' \<notin> set (split CHR ''/'' ''/openai/models'')
   \<and> parse_azure_url lenient_checks
        (Some (''https'' @ ''://'' @ ''acme.openai.azure.com'' @ ''/openai/models'' @ ''?api-version=2024-10-21''))
      = Inr (Some ''https://acme.openai.azure.com/openai/'', None)"
proof -
  have s: "valid_scheme ''https''" by code_simp
  have h: "plain_host ''acme.openai.azure.com''" by code_simp
  have p: "plain_path ''/openai/models''" by code_simp
  have t: "url_tail ''?api-version=2024-10-21''" by code_simp
  have d: "''deployments'' \<notin> set (split CHR ''/'' ''/openai/models'')" by code_simp
  have l: "lower ''https'' = ''https''" by code_simp
  show ?thesis
    using s h p t d resolve_url_without_deployments [OF s h p t d, of lenient_checks]
    by (simp add: l)
qed

text \<open>
  The claim as stated fails for a scheme written in upper case: the base URL starts with
  \<open>https://\<close>, not with \<open>HTTPS://\<close>; the deployment name is absent, as claimed.
\<close>

theorem resolve_without_deployments_uppercase_counterexample:
  "parse_azure_url lenient_checks (Some ''HTTPS://acme.openai.azure.com/openai/models'')
     = Inr (Some ''https://acme.openai.azure.com/openai/'', None)
   \<and> ''https://acme.openai.azure.com/openai/'' \<noteq> ''HTTPS://acme.openai.azure.com/openai/''"
  by code_simp

lemma base_url_ends:
  assumes "url \<noteq> []" and "parse_azure_url chk (Some url) = Inr (base_url, dep)"
  shows "\<exists>b. base_url = Some b \<and> suffix ''/openai/'' b"
proof (cases "urlparse chk url")
  case (Inl e)
  with assms show ?thesis by (simp add: parse_azure_url_def)
next
  case (Inr parsed)
  with assms have "base_url = Some ((scheme parsed @ ''://'' @ netloc parsed) @ ''/openai/'')"
    by (auto simp: parse_azure_url_def Let_def)
  then show ?thesis by (metis suffixI)
qed

lemma base_url_prefix_form:
  assumes s: "valid_scheme sch" and l: "lower sch = sch" and h: "plain_host host"
  shows "\<exists>dep. parse_azure_url chk (Some (sch @ ''://'' @ host @ ''/openai/'' @ rest))
            = Inr (Some (sch @ ''://'' @ host @ ''/openai/''), dep)"
proof -
  define url where "url = sch @ ''://'' @ host @ ''/openai/'' @ rest"
  have b: "list_all (\<lambda>c. c \<noteq> CHR ''?'' \<and> c \<noteq> CHR ''#'' \<and> c \<notin> UNSAFE_URL_BYTES_TO_REMOVE) ''openai''"
    by (simp add: UNSAFE_URL_BYTES_TO_REMOVE_def)
  have form: "url = sch @ ''://'' @ host @ CHR ''/'' # ''openai'' @ CHR ''/'' # rest"
    by (simp add: url_def)
  obtain parsed where p: "urlparse chk url = Inr parsed"
    and ps: "scheme parsed = lower sch" and pn: "netloc parsed = host"
    using urlparse_form[OF s h b, of chk rest] unfolding form by blast
  have "url \<noteq> []"
    using s by (simp add: valid_scheme_def url_def)
  then have "\<exists>dep. parse_azure_url chk (Some url)
            = Inr (Some (sch @ ''://'' @ host @ ''/openai/''), dep)"
    by (simp add: parse_azure_url_def p ps pn l Let_def)
  then show ?thesis by (simp only: url_def)
qed

text \<open>
  Claim C5, as the code has it. For a non-empty URL that the parser accepts, the base URL ends
  in \<open>/openai/\<close>. It is a prefix of the URL when the URL is \<open>scheme://host/openai/rest\<close> with a
  valid scheme written in lower case and a plain host. The base URL is built from the scheme
  and the host alone, so it is not a prefix of a URL whose path does not start with
  \<open>/openai/\<close>.
\<close>

theorem base_url_shape:
  "(url \<noteq> [] \<and> parse_azure_url chk (Some url) = Inr (base_url, dep)
      \<longrightarrow> (\<exists>b. base_url = Some b \<and> suffix ''/openai/'' b))
   \<and> (valid_scheme sch \<and> lower sch = sch \<and> plain_host host
      \<longrightarrow> (\<exists>b d. parse_azure_url chk (Some (sch @ ''://'' @ host @ ''/openai/'' @ rest)) = Inr (Some b, d)
             \<and> prefix b (sch @ ''://'' @ host @ ''/openai/'' @ rest) \<and> suffix ''/openai/'' b))"
proof (intro conjI impI)
  assume "url \<noteq> [] \<and> parse_azure_url chk (Some url) = Inr (base_url, dep)"
  then show "\<exists>b. base_url = Some b \<and> suffix ''/openai/'' b"
    using base_url_ends by blast
next
  assume a: "valid_scheme sch \<and> lower sch = sch \<and> plain_host host"
  let ?url = "sch @ ''://'' @ host @ ''/openai/'' @ rest"
  let ?b = "sch @ ''://'' @ host @ ''/openai/''"
  obtain d where d: "parse_azure_url chk (Some ?url) = Inr (Some ?b, d)"
    using a base_url_prefix_form[of sch host chk rest] by blast
  have "prefix ?b (?b @ rest)" by (rule prefixI) simp
  then have "prefix ?b ?url" by simp
  moreover have "suffix ''/openai/'' ((sch @ ''://'' @ host) @ ''/openai/'')" by (rule suffixI) simp
  then have "suffix ''/openai/'' ?b" by simp
  ultimately show "\<exists>b d. parse_azure_url chk (Some ?url) = Inr (Some b, d)
             \<and> prefix b ?url \<and> suffix ''/openai/'' b"
    using d by blast
qed

theorem base_url_shape_witness:
  "(\<exists>b. Some ''https://acme.openai.azure.com/openai/'' = Some b \<and> suffix ''/openai/'' b)
   \<and> (\<exists>b d. parse_azure_url lenient_checks
               (Some (''https'' @ ''://'' @ ''acme.openai.azure.com'' @ ''/openai/'' @ ''models'')) = Inr (Some b, d)
          \<and> prefix b (''https'' @ ''://'' @ ''acme.openai.azure.com'' @ ''/openai/'' @ ''models'')
          \<and> suffix ''/openai/'' b)"
proof -
  have u: "''https://acme.openai.azure.com/openai/models'' \<noteq> []" by simp
  have p: "parse_azure_url lenient_checks (Some ''https://acme.openai.azure.com/openai/models'')
             = Inr (Some ''https://acme.openai.azure.com/openai/'', None)"
    by code_simp
  have s: "valid_scheme ''https''" by code_simp
  have l: "lower ''https'' = ''https''" by code_simp
  have h: "plain_host ''acme.openai.azure.com''" by code_simp
  show ?thesis
    using base_url_shape [of "''https://acme.openai.azure.com/openai/models''" lenient_checks
        "Some ''https://acme.openai.azure.com/openai/''" None "''https''" "''acme.openai.azure.com''"
        "''models''"] u p s l h
    by simp
qed

text \<open>
  The claim as stated fails for a URL whose path is not under \<open>/openai/\<close>.
\<close>

theorem base_url_not_prefix_counterexample:
  "parse_azure_url lenient_checks (Some ''https://api.openai.com/v1/chat/completions'')
     = Inr (Some ''https://api.openai.com/openai/'', None)
   \<and> \<not> prefix ''https://api.openai.com/openai/'' ''https://api.openai.com/v1/chat/completions''"
  by code_simp

section \<open>The keyword arguments handed to the SDK\<close>

lemma map_of_filtered_kwargs:
  "map_of (filtered_kwargs kw) k = (if k \<in> lightrag_params then None else map_of kw k)"
  unfolding filtered_kwargs_def
  by (induction kw) auto

lemma complete_sdk_kwargs:
  "ev \<in> set (fst (azure_openai_complete_if_cache ext env prompt sp hist kw))
     \<Longrightarrow> sdk_kwargs ev = Some kw' \<Longrightarrow> kw' = filtered_kwargs kw"
  by (auto simp: azure_openai_complete_if_cache_def Let_def
           split: option.splits if_splits sum.splits list.splits)

lemma embed_body_sdk_kwargs:
  "embed_body ext d txts fk = (evs, out) \<Longrightarrow> ev \<in> set evs
     \<Longrightarrow> sdk_kwargs ev = Some kw' \<Longrightarrow> kw' = fk"
  by (auto simp: embed_body_def Let_def split: if_splits sum.splits)

lemma embed_sdk_kwargs:
  "ev \<in> set (fst (azure_openai_embed ext dotenv env txts kw))
     \<Longrightarrow> sdk_kwargs ev = Some kw' \<Longrightarrow> kw' = filtered_kwargs kw"
  by (auto simp: azure_openai_embed_def Let_def dest: embed_body_sdk_kwargs
           split: option.splits if_splits prod.splits)

text \<open>
  Claim C10. The keyword arguments that the completion function and the embedding function
  hand to the SDK are the input mapping without the keys \<open>azure_endpoint\<close>, \<open>api_version\<close>,
  \<open>azure_deployment\<close>, \<open>hashing_kv\<close>, \<open>keyword_extraction\<close> and \<open>enable_cot\<close>: these six keys
  are absent, every other key keeps its value, and every call of an SDK method that the two
  functions make carries exactly this mapping.
\<close>

theorem forwarded_kwargs:
  "map_of (filtered_kwargs kwargs)
     = (\<lambda>k. if k \<in> {''azure_endpoint'', ''api_version'', ''azure_deployment'', ''hashing_kv'',
                      ''keyword_extraction'', ''enable_cot''} then None else map_of kwargs k)
   \<and> (\<forall>ev \<in> set (fst (azure_openai_complete_if_cache sdk env prompt system_prompt history kwargs)).
        \<forall>kw. sdk_kwargs ev = Some kw \<longrightarrow> kw = filtered_kwargs kwargs)
   \<and> (\<forall>ev \<in> set (fst (azure_openai_embed sdk dotenv_file env txts kwargs)).
        \<forall>kw. sdk_kwargs ev = Some kw \<longrightarrow> kw = filtered_kwargs kwargs)"
proof (intro conjI)
  show "map_of (filtered_kwargs kwargs)
     = (\<lambda>k. if k \<in> {''azure_endpoint'', ''api_version'', ''azure_deployment'', ''hashing_kv'',
                      ''keyword_extraction'', ''enable_cot''} then None else map_of kwargs k)"
    using map_of_filtered_kwargs[of kwargs] unfolding lightrag_params_def by (intro ext) simp
next
  show "\<forall>ev \<in> set (fst (azure_openai_complete_if_cache sdk env prompt system_prompt history kwargs)).
        \<forall>kw. sdk_kwargs ev = Some kw \<longrightarrow> kw = filtered_kwargs kwargs"
    using complete_sdk_kwargs by blast
next
  show "\<forall>ev \<in> set (fst (azure_openai_embed sdk dotenv_file env txts kwargs)).
        \<forall>kw. sdk_kwargs ev = Some kw \<longrightarrow> kw = filtered_kwargs kwargs"
    using embed_sdk_kwargs by blast
qed

theorem forwarded_kwargs_witness:
  "ChatCompletionsCreate ''gpt-4o-mini'' [(''user'', ''hi'')] [(''temperature'', ''0'')]
     \<in> set (fst (azure_openai_complete_if_cache example_externals example_env ''hi'' None []
                   [(''hashing_kv'', ''cache''), (''temperature'', ''0'')]))
   \<and> EmbeddingsCreate ''text-embedding-3-small'' [''hi''] [(''temperature'', ''0'')]
     \<in> set (fst (azure_openai_embed example_externals Map.empty example_env (Single ''hi'')
                   [(''hashing_kv'', ''cache''), (''temperature'', ''0'')]))
   \<and> [(''temperature'', ''0'')] = filtered_kwargs [(''hashing_kv'', ''cache''), (''temperature'', ''0'')]"
proof -
  let ?kw = "[(''hashing_kv'', ''cache''), (''temperature'', ''0'')]"
  let ?c = "ChatCompletionsCreate ''gpt-4o-mini'' [(''user'', ''hi'')] [(''temperature'', ''0'')]"
  let ?e = "EmbeddingsCreate ''text-embedding-3-small'' [''hi''] [(''temperature'', ''0'')]"
  have c: "?c \<in> set (fst (azure_openai_complete_if_cache example_externals example_env ''hi'' None [] ?kw))"
    by code_simp
  have e: "?e \<in> set (fst (azure_openai_embed example_externals Map.empty example_env (Single ''hi'') ?kw))"
    by code_simp
  have k: "sdk_kwargs ?c = Some [(''temperature'', ''0'')]" by simp
  have "[(''temperature'', ''0'')] = filtered_kwargs ?kw"
    using forwarded_kwargs [of ?kw example_externals example_env "''hi''" None "[]" Map.empty "Single ''hi''"] c k
    by blast
  with c e show ?thesis by simp
qed

section \<open>Missing configuration\<close>

lemma complete_missing:
  assumes "\<not> truthy (env ''AZURE_OPENAI_API_KEY'') \<or> \<not> truthy (env ''AZURE_OPENAI_ENDPOINT'')
           \<or> \<not> truthy (env ''AZURE_OPENAI_LLM_DEPLOYMENT'')"
  shows "azure_openai_complete_if_cache x env prompt sp hist kw
           = ([], Inl (ValueError ''Missing required Azure OpenAI configuration''))"
  using assms
  by (auto simp: azure_openai_complete_if_cache_def getenv_def Let_def truthy_def
           split: option.splits)

lemma embed_missing:
  assumes "\<not> truthy (load_dotenv f env ''AZURE_OPENAI_API_KEY'')
           \<or> \<not> truthy (load_dotenv f env ''AZURE_OPENAI_ENDPOINT'')
           \<or> \<not> truthy (load_dotenv f env ''AZURE_OPENAI_EMBEDDING_DEPLOYMENT'')"
  shows "azure_openai_embed x f env txts kw
           = ([LoadDotenv], Inl (ValueError ''Missing required Azure OpenAI embedding configuration''))"
  using assms
  by (auto simp: azure_openai_embed_def getenv_def Let_def truthy_def
           split: option.splits)

text \<open>
  Both wrappers check the configuration first: when the API key, the endpoint or the
  deployment is unset or empty (for the embedding function: after \<open>load_dotenv\<close> has filled
  the unset variables from the \<open>.env\<close> file), they raise \<open>ValueError\<close> before a client is
  constructed and before any method of the SDK is called.
\<close>

lemma missing_configuration_raises_first:
  "(\<not> truthy (env ''AZURE_OPENAI_API_KEY'') \<or> \<not> truthy (env ''AZURE_OPENAI_ENDPOINT'')
      \<or> \<not> truthy (env ''AZURE_OPENAI_LLM_DEPLOYMENT'')
     \<longrightarrow> azure_openai_complete_if_cache x env prompt system_prompt history kwargs
           = ([], Inl (ValueError ''Missing required Azure OpenAI configuration'')))
   \<and> (\<not> truthy (load_dotenv dotenv_file env ''AZURE_OPENAI_API_KEY'')
      \<or> \<not> truthy (load_dotenv dotenv_file env ''AZURE_OPENAI_ENDPOINT'')
      \<or> \<not> truthy (load_dotenv dotenv_file env ''AZURE_OPENAI_EMBEDDING_DEPLOYMENT'')
     \<longrightarrow> azure_openai_embed x dotenv_file env txts kwargs
           = ([LoadDotenv], Inl (ValueError ''Missing required Azure OpenAI embedding configuration'')))"
  using complete_missing embed_missing by blast

lemma missing_configuration_raises_first_witness:
  "azure_openai_complete_if_cache example_externals (env_without ''AZURE_OPENAI_ENDPOINT'')
       ''hi'' None [] []
     = ([], Inl (ValueError ''Missing required Azure OpenAI configuration''))
   \<and> azure_openai_embed example_externals Map.empty (env_without ''AZURE_OPENAI_ENDPOINT'')
       (Single ''hi'') []
     = ([LoadDotenv], Inl (ValueError ''Missing required Azure OpenAI embedding configuration''))"
proof -
  have a: "\<not> truthy (env_without ''AZURE_OPENAI_ENDPOINT'' ''AZURE_OPENAI_ENDPOINT'')"
    by (simp add: env_without_def truthy_def)
  have b: "\<not> truthy (load_dotenv Map.empty (env_without ''AZURE_OPENAI_ENDPOINT'') ''AZURE_OPENAI_ENDPOINT'')"
    by (simp add: env_without_def truthy_def load_dotenv_def)
  show ?thesis
    using a b missing_configuration_raises_first
      [of "env_without ''AZURE_OPENAI_ENDPOINT''" example_externals "''hi''" None "[]" "[]"
          Map.empty "Single ''hi''"]
    by blast
qed

text \<open>
  Claim C2. With a required variable missing, the completion function and the embedding
  function raise before any client or call of the SDK, but the error does not name the
  missing field: it is the same error whether the API key or the deployment is missing. The
  sibling \<open>get_azure_openai_config\<close> names the missing keys in its error.
\<close>

theorem wrapper_error_names_no_field:
  "azure_openai_complete_if_cache example_externals (env_without ''AZURE_OPENAI_API_KEY'')
       ''hi'' None [] []
     = ([], Inl (ValueError ''Missing required Azure OpenAI configuration''))
   \<and> azure_openai_complete_if_cache example_externals (env_without ''AZURE_OPENAI_LLM_DEPLOYMENT'')
       ''hi'' None [] []
     = ([], Inl (ValueError ''Missing required Azure OpenAI configuration''))
   \<and> azure_openai_embed example_externals Map.empty (env_without ''AZURE_OPENAI_API_KEY'')
       (Single ''hi'') []
     = ([LoadDotenv], Inl (ValueError ''Missing required Azure OpenAI embedding configuration''))
   \<and> azure_openai_embed example_externals Map.empty (env_without ''AZURE_OPENAI_EMBEDDING_DEPLOYMENT'')
       (Single ''hi'') []
     = ([LoadDotenv], Inl (ValueError ''Missing required Azure OpenAI embedding configuration''))
   \<and> get_azure_openai_config (\<lambda>s. Inr 1536) example_binding_env
     = Inl (ValueError (''Missing Azure OpenAI configuration: ['' @ [CHR 0x27] @ ''llm_api_key''
                          @ [CHR 0x27] @ '']''))"
proof -
  have g: "get_azure_openai_config (\<lambda>s. Inr 1536) example_binding_env
     = Inl (ValueError (''Missing Azure OpenAI configuration: ['' @ [CHR 0x27] @ ''llm_api_key''
                          @ [CHR 0x27] @ '']''))"
    by code_simp
  have w: "azure_openai_complete_if_cache example_externals (env_without ''AZURE_OPENAI_API_KEY'')
       ''hi'' None [] []
     = ([], Inl (ValueError ''Missing required Azure OpenAI configuration''))
   \<and> azure_openai_complete_if_cache example_externals (env_without ''AZURE_OPENAI_LLM_DEPLOYMENT'')
       ''hi'' None [] []
     = ([], Inl (ValueError ''Missing required Azure OpenAI configuration''))
   \<and> azure_openai_embed example_externals Map.empty (env_without ''AZURE_OPENAI_API_KEY'')
       (Single ''hi'') []
     = ([LoadDotenv], Inl (ValueError ''Missing required Azure OpenAI embedding configuration''))
   \<and> azure_openai_embed example_externals Map.empty (env_without ''AZURE_OPENAI_EMBEDDING_DEPLOYMENT'')
       (Single ''hi'') []
     = ([LoadDotenv], Inl (ValueError ''Missing required Azure OpenAI embedding configuration''))"
    by (simp add: azure_openai_complete_if_cache_def azure_openai_embed_def env_without_def
          example_env_def getenv_def load_dotenv_def Let_def)
  from w g show ?thesis by simp
qed

section \<open>Closing the client\<close>

lemma complete_never_closes:
  "ClientClosed \<notin> set (fst (azure_openai_complete_if_cache x env prompt sp hist kw))"
  by (auto simp: azure_openai_complete_if_cache_def Let_def
           split: option.splits if_splits sum.splits list.splits)

lemma embed_always_closes:
  "ClientCreated k e v \<in> set (fst (azure_openai_embed x f env txts kw))
     \<Longrightarrow> last (fst (azure_openai_embed x f env txts kw)) = ClientClosed"
  by (auto simp: azure_openai_embed_def Let_def split: option.splits if_splits prod.splits)

text \<open>
  Claim C3. The embedding function closes its client on every path (\<open>embed_always_closes\<close>);
  the completion function constructs a client and never closes it
  (\<open>complete_never_closes\<close>). On a configured environment a completion that succeeds leaves
  the client open.
\<close>

theorem completion_client_left_open:
  "azure_openai_complete_if_cache example_externals example_env ''hi'' None [] []
     = ([ClientCreated ''secret'' ''https://acme.openai.azure.com'' ''2024-08-01-preview'',
         ChatCompletionsCreate ''gpt-4o-mini'' [(''user'', ''hi'')] []],
        Inr (Some ''ok''))
   \<and> ClientClosed \<notin> set (fst (azure_openai_complete_if_cache example_externals example_env
                                ''hi'' None [] []))"
  by code_simp

section \<open>The batch of test queries\<close>

lemma custom_query_loop_continues:
  assumes "\<forall>rag q e. fst (aquery rag q) = Inl e \<longrightarrow> is_Exception e"
  shows "custom_query_loop aquery rag qs = (evs, raised, rag')
     \<Longrightarrow> raised = None \<and> queries_run evs = qs
         \<and> failures_logged evs = failures_of (query_outcomes aquery rag qs)"
proof (induction qs arbitrary: rag evs raised rag')
  case Nil
  then show ?case by simp
next
  case (Cons q qs)
  obtain r rag1 where a: "aquery rag q = (r, rag1)" by (cases "aquery rag q")
  obtain evs1 raised1 rag2 where l: "custom_query_loop aquery rag1 qs = (evs1, raised1, rag2)"
    by (cases "custom_query_loop aquery rag1 qs") auto
  note ih = Cons.IH[OF l]
  show ?case
  proof (cases r)
    case (Inr result)
    with Cons.prems a l ih show ?thesis by auto
  next
    case (Inl e)
    with assms a have "is_Exception e" by (metis fst_conv)
    with Inl Cons.prems a l ih show ?thesis by auto
  qed
qed

lemma fixed_query_loop_continues:
  assumes "\<forall>rag q e. fst (aquery rag q) = Inl e \<longrightarrow> is_Exception e"
  shows "fixed_query_loop aquery rag qs = (evs, raised, rag')
     \<Longrightarrow> raised = None \<and> queries_run evs = qs
         \<and> failures_logged evs = failures_of (query_outcomes aquery rag qs)"
proof (induction qs arbitrary: rag evs raised rag')
  case Nil
  then show ?case by simp
next
  case (Cons q qs)
  obtain r rag1 where a: "aquery rag q = (r, rag1)" by (cases "aquery rag q")
  obtain evs1 raised1 rag2 where l: "fixed_query_loop aquery rag1 qs = (evs1, raised1, rag2)"
    by (cases "fixed_query_loop aquery rag1 qs") auto
  note ih = Cons.IH[OF l]
  show ?case
  proof (cases r)
    case (Inr result)
    with Cons.prems a l ih show ?thesis by auto
  next
    case (Inl e)
    with assms a have "is_Exception e" by (metis fst_conv)
    with Inl Cons.prems a l ih show ?thesis by auto
  qed
qed

text \<open>
  Claim C8. In the batch of test queries of both example scripts, when the queries fail with
  exceptions that \<open>except Exception\<close> catches, no exception leaves the loop, every query of the
  batch is run in order, and every failure is logged as an error.
\<close>

theorem query_batch_continues:
  assumes "\<forall>rag q e. fst (aquery rag q) = Inl e \<longrightarrow> is_Exception e"
  shows "(case custom_query_loop aquery rag queries of (evs, raised, rag') \<Rightarrow>
            raised = None \<and> queries_run evs = queries
            \<and> failures_logged evs = failures_of (query_outcomes aquery rag queries))
       \<and> (case fixed_query_loop aquery rag queries of (evs, raised, rag') \<Rightarrow>
            raised = None \<and> queries_run evs = queries
            \<and> failures_logged evs = failures_of (query_outcomes aquery rag queries))"
  using custom_query_loop_continues[OF assms] fixed_query_loop_continues[OF assms]
  by (auto split: prod.splits)

theorem query_batch_continues_witness:
  "custom_query_loop example_aquery 0 [''What is the main content of the document?'',
                                        ''What are the key topics discussed?'']
     = ([LogInfo (QueryText ''What is the main content of the document?''),
         AQuery ''What is the main content of the document?'',
         LogError (QueryFailed (Exception ''timeout'')),
         LogInfo (QueryText ''What are the key topics discussed?''),
         AQuery ''What are the key topics discussed?'',
         Print (Answer ''answer''), LogInfo QuerySucceeded], None, 2)
   \<and> fixed_query_loop example_aquery 0 [''What is the main content of the document?'',
                                        ''What are the key topics discussed?'']
     = ([LogInfo (QueryText ''What is the main content of the document?''),
         AQuery ''What is the main content of the document?'',
         LogError (QueryFailed (Exception ''timeout'')), PrintTraceback,
         LogInfo (QueryText ''What are the key topics discussed?''),
         AQuery ''What are the key topics discussed?'',
         LogInfo (Answer ''answer'')], None, 2)
   \<and> failures_of (query_outcomes example_aquery 0 [''What is the main content of the document?'',
                                        ''What are the key topics discussed?''])
     = [Exception ''timeout'']"
proof -
  let ?qs = "[''What is the main content of the document?'', ''What are the key topics discussed?'']"
  have h: "\<forall>rag q e. fst (example_aquery rag q) = Inl e \<longrightarrow> is_Exception e"
    by (auto simp: example_aquery_def is_Exception_def split: if_splits)
  have c: "custom_query_loop example_aquery 0 ?qs
     = ([LogInfo (QueryText ''What is the main content of the document?''),
         AQuery ''What is the main content of the document?'',
         LogError (QueryFailed (Exception ''timeout'')),
         LogInfo (QueryText ''What are the key topics discussed?''),
         AQuery ''What are the key topics discussed?'',
         Print (Answer ''answer''), LogInfo QuerySucceeded], None, 2)"
    by (simp add: example_aquery_def is_Exception_def numeral_2_eq_2)
  have f: "fixed_query_loop example_aquery 0 ?qs
     = ([LogInfo (QueryText ''What is the main content of the document?''),
         AQuery ''What is the main content of the document?'',
         LogError (QueryFailed (Exception ''timeout'')), PrintTraceback,
         LogInfo (QueryText ''What are the key topics discussed?''),
         AQuery ''What are the key topics discussed?'',
         LogInfo (Answer ''answer'')], None, 2)"
    by (simp add: example_aquery_def is_Exception_def numeral_2_eq_2)
  have "failures_logged (fst (custom_query_loop example_aquery 0 ?qs))
          = failures_of (query_outcomes example_aquery 0 ?qs)"
    using query_batch_continues [OF h, where rag = 0 and queries = ?qs] by (auto split: prod.splits)
  then have "failures_of (query_outcomes example_aquery 0 ?qs) = [Exception ''timeout'']"
    unfolding c by simp
  with c f show ?thesis by simp
qed

section \<open>The file that does not exist\<close>

lemma custom_main_missing_file:
  "length argv = 2 \<Longrightarrow> \<not> exists (argv ! 1)
     \<Longrightarrow> main_fixed_azure_custom_example exists process argv
           = ([Print (FileNotFound (argv ! 1))], SysExit 1)"
  by (simp add: main_fixed_azure_custom_example_def)

lemma argparse_main_missing_file:
  "\<not> exists (file_path a)
     \<Longrightarrow> main_argparse_example exists makedirs process a
           = ([LogError (FileNotFound (file_path a))], Returned)"
  by (simp add: main_argparse_example_def)

text \<open>
  Claim C9. For a file that does not exist, \<open>main\<close> of \<open>debug_tools/fixed_azure_example.py\<close> and
  of \<open>debug_tools/azure_openai_example.py\<close> logs an error and returns, so the exit status of the
  process is 0; \<open>main\<close> of \<open>azure_integration/fixed_azure_custom_example.py\<close> prints an error
  and calls \<open>sys.exit(1)\<close>.
\<close>

theorem missing_file_exit_status_zero:
  "main_fixed_azure_example (\<lambda>p. False) (\<lambda>d. None) (\<lambda>p d. ([], None))
       \<lparr>file_path = ''missing.pdf'', output_dir = ''./output''\<rparr>
     = ([LogError (FileNotFound ''missing.pdf'')], Returned)
   \<and> main_azure_openai_example (\<lambda>p. False) (\<lambda>d. None) (\<lambda>p d. ([], None))
       \<lparr>file_path = ''missing.pdf'', output_dir = ''./output''\<rparr>
     = ([LogError (FileNotFound ''missing.pdf'')], Returned)
   \<and> exit_status Returned = 0
   \<and> main_fixed_azure_custom_example (\<lambda>p. False) (\<lambda>p. ([], None))
       [''fixed_azure_custom_example.py'', ''missing.pdf'']
     = ([Print (FileNotFound ''missing.pdf'')], SysExit 1)
   \<and> exit_status (SysExit 1) = 1"
  by (simp add: main_fixed_azure_example_def main_azure_openai_example_def
        main_argparse_example_def main_fixed_azure_custom_example_def exit_status_def)

end
